theory Spec2Isabelle
  imports Complex_Main
begin

section \<open>Numbers of the source\<close>

text \<open>
  The source computes with JavaScript numbers. They are modelled as real numbers:
  rounding of IEEE doubles and of the 32-bit floats stored in typed arrays is not
  modelled. Where the source produces NaN on inputs it really receives (the normalised
  difference function of the YIN detector on a silent window, a typed-array read past
  the end) the model says so with the type \<open>jsnum\<close>. Integer-valued quantities (note
  numbers, lags, counters, indices) are \<open>int\<close> or \<open>nat\<close>.
\<close>

definition Math_round :: "real \<Rightarrow> int" where
  \<comment> \<open>\<^verbatim>\<open>Math.round\<close>: nearest integer, halves rounded up\<close>
  "Math_round x = \<lfloor>x + 1 / 2\<rfloor>"

definition Math_floor :: "real \<Rightarrow> int" where
  "Math_floor x = \<lfloor>x\<rfloor>"

definition Math_log2 :: "real \<Rightarrow> real" where
  "Math_log2 x = log 2 x"

definition Math_pow2 :: "real \<Rightarrow> real" where
  \<comment> \<open>\<^verbatim>\<open>Math.pow(2, x)\<close>\<close>
  "Math_pow2 x = 2 powr x"

definition js_rem :: "int \<Rightarrow> int \<Rightarrow> int" where
  \<comment> \<open>the operator \<^verbatim>\<open>%\<close> on integers: the remainder takes the sign of the dividend\<close>
  "js_rem a b = sgn a * (\<bar>a\<bar> mod \<bar>b\<bar>)"

datatype jsnum = Num real | NaN

fun js_lt :: "jsnum \<Rightarrow> jsnum \<Rightarrow> bool" where
  \<comment> \<open>the operator \<^verbatim>\<open><\<close>: false as soon as one side is NaN\<close>
  "js_lt (Num a) (Num b) = (a < b)"
| "js_lt _ _ = False"

fun js_add :: "jsnum \<Rightarrow> jsnum \<Rightarrow> jsnum" where
  "js_add (Num a) (Num b) = Num (a + b)"
| "js_add _ _ = NaN"

fun js_sub :: "jsnum \<Rightarrow> jsnum \<Rightarrow> jsnum" where
  "js_sub (Num a) (Num b) = Num (a - b)"
| "js_sub _ _ = NaN"

fun clamp01 :: "jsnum \<Rightarrow> jsnum" where
  \<comment> \<open>\<^verbatim>\<open>Math.max(0, Math.min(1, p))\<close>: NaN stays NaN\<close>
  "clamp01 (Num p) = Num (max 0 (min 1 p))"
| "clamp01 NaN = NaN"

definition typed_at :: "jsnum list \<Rightarrow> int \<Rightarrow> jsnum" where
  \<comment> \<open>reading a typed array: past either end the value is \<^verbatim>\<open>undefined\<close>, which every
      comparison and every subtraction of the source treats as NaN\<close>
  "typed_at xs i = (if 0 \<le> i \<and> i < int (length xs) then xs ! nat i else NaN)"

section \<open>pitch-utils.ts\<close>

definition frequencyToMidi :: "real \<Rightarrow> real \<Rightarrow> real" where
  "frequencyToMidi frequency a4 = 69 + 12 * Math_log2 (frequency / a4)"

definition midiToFrequency :: "real \<Rightarrow> real \<Rightarrow> real" where
  "midiToFrequency midi a4 = a4 * Math_pow2 ((midi - 69) / 12)"

definition frequencyToCents :: "real \<Rightarrow> real \<Rightarrow> real" where
  "frequencyToCents frequency referenceFrequency =
     1200 * Math_log2 (frequency / referenceFrequency)"

definition scaleDistance :: "int \<Rightarrow> int \<Rightarrow> int" where
  \<comment> \<open>\<^verbatim>\<open>Math.min(Math.abs(noteClass - interval), 12 - Math.abs(noteClass - interval))\<close>\<close>
  "scaleDistance noteClass interval =
     min \<bar>noteClass - interval\<bar> (12 - \<bar>noteClass - interval\<bar>)"

text \<open>
  The loop over the configured intervals, shared by \<open>snapToScale\<close> and by the scale
  branch of \<open>getSynthFrequency\<close>. The running minimum starts at \<^verbatim>\<open>Infinity\<close> in
  \<open>snapToScale\<close> (\<open>None\<close> here) and at \<open>12\<close> in \<open>getSynthFrequency\<close>.
\<close>

primrec nearestIntervalLoop :: "int \<Rightarrow> int list \<Rightarrow> int option \<Rightarrow> int \<Rightarrow> int" where
  "nearestIntervalLoop noteClass [] minDistance nearestInterval = nearestInterval"
| "nearestIntervalLoop noteClass (interval # rest) minDistance nearestInterval =
     (let distance = scaleDistance noteClass interval in
      if (case minDistance of None \<Rightarrow> True | Some m \<Rightarrow> distance < m)
      then nearestIntervalLoop noteClass rest (Some distance) interval
      else nearestIntervalLoop noteClass rest minDistance nearestInterval)"

definition scaleNoteClass :: "int \<Rightarrow> int \<Rightarrow> int" where
  \<comment> \<open>\<^verbatim>\<open>((midi % 12) - root + 12) % 12\<close>\<close>
  "scaleNoteClass midi scaleRoot = js_rem (js_rem midi 12 - scaleRoot + 12) 12"

text \<open>
  The note number whose tempered frequency \<open>snapToScale\<close> returns: the rounded note
  itself when its class is in the scale, otherwise
  \<^verbatim>\<open>Math.floor(roundedMidi / 12) * 12 + scaleRoot + nearestInterval\<close>.
\<close>

definition snapToScale_targetMidi :: "int \<Rightarrow> int \<Rightarrow> int list \<Rightarrow> int" where
  "snapToScale_targetMidi roundedMidi scaleRoot scaleIntervals =
     (let noteClass = scaleNoteClass roundedMidi scaleRoot in
      if noteClass \<in> set scaleIntervals then roundedMidi
      else
        let nearestInterval = nearestIntervalLoop noteClass scaleIntervals None 0;
            octave = Math_floor (real_of_int roundedMidi / 12)
        in octave * 12 + scaleRoot + nearestInterval)"

definition snapToScale :: "real \<Rightarrow> int \<Rightarrow> int list \<Rightarrow> real \<Rightarrow> real" where
  "snapToScale frequency scaleRoot scaleIntervals a4 =
     (let midi = frequencyToMidi frequency a4;
          roundedMidi = Math_round midi
      in midiToFrequency
           (real_of_int (snapToScale_targetMidi roundedMidi scaleRoot scaleIntervals)) a4)"

definition parabolicInterpolation :: "real list \<Rightarrow> int \<Rightarrow> real" where
  "parabolicInterpolation magnitudes peakBin =
     (if peakBin \<le> 0 \<or> peakBin \<ge> int (length magnitudes) - 1 then real_of_int peakBin
      else
        let alpha = magnitudes ! nat (peakBin - 1);
            beta = magnitudes ! nat peakBin;
            gamma = magnitudes ! nat (peakBin + 1);
            denominator = alpha - 2 * beta + gamma
        in if \<bar>denominator\<bar> < 1 / 10 ^ 10 then real_of_int peakBin
           else
             let p = 0.5 * (alpha - gamma) / denominator
             in real_of_int peakBin + p)"

section \<open>processor.js: RingBuffer\<close>

text \<open>
  The buffer with its array as a value. \<open>read\<close> fills the array it is given, which is
  the processor's analysis buffer; the model returns the buffer together with the answer
  and the filled array. A capacity of \<open>0\<close> is outside the model (the source's write
  index becomes NaN there).
\<close>

record RingBuffer =
  buffer :: "real list"
  writeIndex :: nat
  available :: nat

definition RingBuffer_new :: "nat \<Rightarrow> RingBuffer" where
  "RingBuffer_new n = \<lparr>buffer = replicate n 0, writeIndex = 0, available = 0\<rparr>"

definition RingBuffer_write_step :: "RingBuffer \<Rightarrow> real \<Rightarrow> RingBuffer" where
  \<comment> \<open>one iteration of the loop of \<open>write\<close>\<close>
  "RingBuffer_write_step rb x =
     rb\<lparr>buffer := (buffer rb)[writeIndex rb := x],
        writeIndex := (writeIndex rb + 1) mod length (buffer rb),
        available := (if available rb < length (buffer rb) then available rb + 1
                      else available rb)\<rparr>"

primrec RingBuffer_write :: "RingBuffer \<Rightarrow> real list \<Rightarrow> RingBuffer" where
  "RingBuffer_write rb [] = rb"
| "RingBuffer_write rb (x # data) = RingBuffer_write (RingBuffer_write_step rb x) data"

definition read_index :: "RingBuffer \<Rightarrow> nat \<Rightarrow> nat \<Rightarrow> int" where
  \<comment> \<open>\<^verbatim>\<open>(writeIndex - output.length + i + buffer.length) % buffer.length\<close>\<close>
  "read_index rb n i =
     js_rem (int (writeIndex rb) - int n + int i + int (length (buffer rb)))
            (int (length (buffer rb)))"

definition RingBuffer_read :: "RingBuffer \<Rightarrow> real list \<Rightarrow> RingBuffer \<times> bool \<times> real list" where
  "RingBuffer_read rb out =
     (if available rb < length out then (rb, False, out)
      else (rb, True,
            map (\<lambda>i. buffer rb ! nat (read_index rb (length out) i))
                [0..<length out]))"

definition writes :: "RingBuffer \<Rightarrow> real list list \<Rightarrow> RingBuffer" where
  \<comment> \<open>a sequence of calls of \<open>write\<close>, one per block\<close>
  "writes rb blocks = foldl RingBuffer_write rb blocks"

text \<open>
  \<open>read\<close> on a store of arrays, to say what a call changes. The buffer holds the
  address of its storage; \<open>out\<close> is the address of the array read into, which the loop
  assigns element by element while it reads the storage.
\<close>

type_synonym arrays = "nat \<Rightarrow> real list"

record RingBufferRef =
  storage :: nat
  refWriteIndex :: nat
  refAvailable :: nat

definition read_loop :: "RingBufferRef \<Rightarrow> nat \<Rightarrow> nat \<Rightarrow> nat list \<Rightarrow> arrays \<Rightarrow> arrays" where
  \<comment> \<open>the \<^verbatim>\<open>for\<close> loop of \<open>read\<close> over the indices \<open>is\<close>, with \<open>n = output.length\<close>\<close>
  "read_loop rb n out is h =
     fold (\<lambda>i h. h(out := (h out)
             [i := h (storage rb)
                     ! nat (js_rem (int (refWriteIndex rb) - int n + int i
                                      + int (length (h (storage rb))))
                                   (int (length (h (storage rb)))))])) is h"

definition RingBuffer_read_at ::
  "arrays \<Rightarrow> RingBufferRef \<Rightarrow> nat \<Rightarrow> RingBufferRef \<times> bool \<times> arrays" where
  "RingBuffer_read_at h rb out =
     (if refAvailable rb < length (h out) then (rb, False, h)
      else (rb, True, read_loop rb (length (h out)) out [0..<length (h out)] h))"

definition deref :: "arrays \<Rightarrow> RingBufferRef \<Rightarrow> RingBuffer" where
  \<comment> \<open>the buffer of the value model that a buffer of the store stands for\<close>
  "deref h rb =
     \<lparr>buffer = h (storage rb), writeIndex = refWriteIndex rb, available = refAvailable rb\<rparr>"

section \<open>processor.js: YINDetector\<close>

definition MIN_FREQUENCY :: real where "MIN_FREQUENCY = 150"
definition MAX_FREQUENCY :: real where "MAX_FREQUENCY = 2000"
definition YIN_THRESHOLD :: real where "YIN_THRESHOLD = 0.15"

record YINDetector =
  bufferSize :: nat
  halfBuffer :: nat
  sampleRate :: real
  yinBuffer :: "jsnum list"
  probability :: jsnum
  minPeriod :: int
  maxPeriod :: int

definition YINDetector_new :: "nat \<Rightarrow> real \<Rightarrow> YINDetector" where
  "YINDetector_new n sr =
     \<lparr>bufferSize = n,
      halfBuffer = n div 2,
      sampleRate = sr,
      yinBuffer = replicate (n div 2) (Num 0),
      probability = Num 0,
      minPeriod = Math_floor (sr / MAX_FREQUENCY),
      maxPeriod = min (Math_floor (sr / MIN_FREQUENCY)) (int (n div 2) - 1)\<rparr>"

text \<open>
  The difference function at lag \<open>tau\<close>: the sum over \<open>i < halfBuffer\<close> of the squared
  differences \<open>buffer[i] - buffer[i + tau]\<close>. The largest index read is
  \<open>halfBuffer - 1 + tau\<close>; when it is past the end of the buffer the read is
  \<^verbatim>\<open>undefined\<close> and the sum is NaN.
\<close>

definition difference :: "nat \<Rightarrow> real list \<Rightarrow> nat \<Rightarrow> jsnum" where
  "difference half buf tau =
     (if half + tau \<le> length buf
      then Num (\<Sum>i\<leftarrow>[0..<half]. (buf ! i - buf ! (i + tau)) * (buf ! i - buf ! (i + tau)))
      else NaN)"

text \<open>
  The cumulative mean normalisation, from lag \<open>tau\<close> on:
  \<^verbatim>\<open>runningSum += yinBuffer[tau]; yinBuffer[tau] *= tau / runningSum\<close>.
  The running sum is a sum of sums of squares, so it is zero only when the entry is zero
  too: the quotient is then infinite and the product \<open>0 * Infinity\<close> is NaN.
\<close>

fun normalise_entry :: "jsnum \<Rightarrow> nat \<Rightarrow> jsnum \<Rightarrow> jsnum" where
  "normalise_entry (Num d) tau (Num runningSum) =
     (if runningSum = 0 then NaN else Num (d * (real tau / runningSum)))"
| "normalise_entry _ tau _ = NaN"

fun normalise :: "jsnum list \<Rightarrow> nat \<Rightarrow> jsnum \<Rightarrow> jsnum list" where
  "normalise [] tau runningSum = []"
| "normalise (d # ds) tau runningSum =
     (let runningSum' = js_add runningSum d
      in normalise_entry d tau runningSum' # normalise ds (tau + 1) runningSum')"

definition computeDifference :: "YINDetector \<Rightarrow> real list \<Rightarrow> YINDetector" where
  "computeDifference det buf =
     det\<lparr>yinBuffer :=
       (case map (difference (halfBuffer det) buf) [0..<halfBuffer det] of
          [] \<Rightarrow> []
        | d0 # ds \<Rightarrow> Num 1 # normalise ds 1 (Num 0))\<rparr>"

text \<open>
  \<open>absoluteThreshold\<close>: the inner \<^verbatim>\<open>while\<close> that walks down to the local minimum, the
  \<^verbatim>\<open>for\<close> that looks for the first lag under the threshold, and the second \<^verbatim>\<open>for\<close>
  that finds the global minimum when there is none.
\<close>

function absoluteThreshold_walk :: "jsnum list \<Rightarrow> int \<Rightarrow> int \<Rightarrow> int" where
  "absoluteThreshold_walk yin maxP tau =
     (if tau + 1 < maxP \<and> js_lt (typed_at yin (tau + 1)) (typed_at yin tau)
      then absoluteThreshold_walk yin maxP (tau + 1)
      else tau)"
  by pat_completeness auto
termination
  by (relation "measure (\<lambda>(yin, maxP, tau). nat (maxP - tau))") auto

function absoluteThreshold_search :: "jsnum list \<Rightarrow> int \<Rightarrow> int \<Rightarrow> int option" where
  "absoluteThreshold_search yin maxP tau =
     (if tau < maxP
      then if js_lt (typed_at yin tau) (Num YIN_THRESHOLD)
           then Some (absoluteThreshold_walk yin maxP tau)
           else absoluteThreshold_search yin maxP (tau + 1)
      else None)"
  by pat_completeness auto
termination
  by (relation "measure (\<lambda>(yin, maxP, tau). nat (maxP - tau))") auto

function absoluteThreshold_fallback ::
  "jsnum list \<Rightarrow> int \<Rightarrow> int \<Rightarrow> int \<Rightarrow> jsnum \<Rightarrow> int \<times> jsnum" where
  "absoluteThreshold_fallback yin maxP tau minTau minVal =
     (if tau < maxP
      then if js_lt (typed_at yin tau) minVal
           then absoluteThreshold_fallback yin maxP (tau + 1) tau (typed_at yin tau)
           else absoluteThreshold_fallback yin maxP (tau + 1) minTau minVal
      else (minTau, minVal))"
  by pat_completeness auto
termination
  by (relation "measure (\<lambda>(yin, maxP, tau, minTau, minVal). nat (maxP - tau))") auto

declare absoluteThreshold_walk.simps [simp del]
declare absoluteThreshold_search.simps [simp del]
declare absoluteThreshold_fallback.simps [simp del]

definition absoluteThreshold :: "YINDetector \<Rightarrow> int \<times> YINDetector" where
  "absoluteThreshold det =
     (case absoluteThreshold_search (yinBuffer det) (maxPeriod det) (minPeriod det) of
        Some tau \<Rightarrow>
          (tau, det\<lparr>probability := js_sub (Num 1) (typed_at (yinBuffer det) tau)\<rparr>)
      | None \<Rightarrow>
          (case absoluteThreshold_fallback (yinBuffer det) (maxPeriod det)
                  (minPeriod det + 1) (minPeriod det)
                  (typed_at (yinBuffer det) (minPeriod det)) of
             (minTau, minVal) \<Rightarrow> (minTau, det\<lparr>probability := js_sub (Num 1) minVal\<rparr>)))"

text \<open>
  \<open>YINDetector.parabolicInterpolation\<close>. When one of the three entries is NaN, so are
  \<open>denom\<close> and \<open>adjustment\<close>; both comparisons are then false and the lag is returned
  as it is.
\<close>

definition YINDetector_parabolicInterpolation :: "YINDetector \<Rightarrow> int \<Rightarrow> real" where
  "YINDetector_parabolicInterpolation det tauEstimate =
     (if tauEstimate < 1 \<or> tauEstimate \<ge> int (halfBuffer det) - 1 then real_of_int tauEstimate
      else
        case (typed_at (yinBuffer det) (tauEstimate - 1),
              typed_at (yinBuffer det) tauEstimate,
              typed_at (yinBuffer det) (tauEstimate + 1)) of
          (Num s0, Num s1, Num s2) \<Rightarrow>
            (let denom = 2 * s1 - s2 - s0 in
             if \<bar>denom\<bar> < 1 / 10 ^ 10 then real_of_int tauEstimate
             else
               let adjustment = (s2 - s0) / (2 * denom) in
               if \<bar>adjustment\<bar> < 1 then real_of_int tauEstimate + adjustment
               else real_of_int tauEstimate)
        | _ \<Rightarrow> real_of_int tauEstimate)"

record PitchEstimate =
  est_frequency :: real
  est_confidence :: jsnum

definition noDetection :: PitchEstimate where
  \<comment> \<open>\<^verbatim>\<open>{ frequency: 0, confidence: 0 }\<close>\<close>
  "noDetection = \<lparr>est_frequency = 0, est_confidence = Num 0\<rparr>"

text \<open>
  \<open>detect\<close>. A refined lag of \<open>0\<close> makes the quotient \<^verbatim>\<open>sampleRate / refinedTau\<close> infinite
  or NaN, and each of these fails the sanity check.
\<close>

definition detect :: "YINDetector \<Rightarrow> real list \<Rightarrow> PitchEstimate \<times> YINDetector" where
  "detect det buf =
     (let det1 = computeDifference det buf;
          (tauEstimate, det2) = absoluteThreshold det1;
          refinedTau = YINDetector_parabolicInterpolation det2 tauEstimate;
          frequency = sampleRate det2 / refinedTau
      in if refinedTau = 0 \<or> frequency < MIN_FREQUENCY \<or> frequency > MAX_FREQUENCY
         then (noDetection, det2)
         else (\<lparr>est_frequency = frequency, est_confidence = clamp01 (probability det2)\<rparr>,
               det2))"

section \<open>processor.js: Oscillator\<close>

datatype WaveformType = Sine | Triangle | Sawtooth

record Oscillator =
  phase :: real
  oscFrequency :: real
  targetFrequency :: real
  amplitude :: real
  targetAmplitude :: real
  waveform :: WaveformType
  oscSampleRate :: real
  freqSmoothCoef :: real
  ampSmoothCoef :: real

text \<open>
  The band-limited oscillator of the YIN variant of the processor. The two harmonic
  sums run over the loop counters \<open>triangle_ks\<close> and \<open>sawtooth_ks\<close>; the triangle's
  term for the counter \<open>k\<close> is the harmonic \<open>n = 2 * k + 1\<close>.
\<close>

definition triangle_ks :: "real \<Rightarrow> real \<Rightarrow> int list" where
  \<comment> \<open>\<^verbatim>\<open>for (k = 0; k < Math.min(maxHarmonicTri, 10); k++)\<close>\<close>
  "triangle_ks sr f = [0 .. min (Math_floor (sr / (2 * f))) 10 - 1]"

definition triangle_harmonics :: "real \<Rightarrow> real \<Rightarrow> int list" where
  "triangle_harmonics sr f = map (\<lambda>k. 2 * k + 1) (triangle_ks sr f)"

definition sawtooth_ks :: "real \<Rightarrow> real \<Rightarrow> int list" where
  \<comment> \<open>\<^verbatim>\<open>for (k = 1; k <= Math.min(maxHarmonicSaw, 12); k++)\<close>\<close>
  "sawtooth_ks sr f = [1 .. min (Math_floor (sr / (2 * f))) 12]"

definition waveform_sample :: "WaveformType \<Rightarrow> real \<Rightarrow> real \<Rightarrow> real \<Rightarrow> real" where
  "waveform_sample w sr f ph =
     (case w of
        Sine \<Rightarrow> sin (2 * pi * ph)
      | Triangle \<Rightarrow>
          (\<Sum>k\<leftarrow>triangle_ks sr f.
             (if js_rem k 2 = 0 then 1 else - 1)
               * sin (2 * pi * real_of_int (2 * k + 1) * ph)
               / (real_of_int (2 * k + 1) * real_of_int (2 * k + 1)))
          * (8 / (pi * pi))
      | Sawtooth \<Rightarrow>
          (\<Sum>k\<leftarrow>sawtooth_ks sr f. sin (2 * pi * real_of_int k * ph) / real_of_int k)
          * (2 / pi))"

definition Oscillator_process :: "Oscillator \<Rightarrow> real \<times> Oscillator" where
  "Oscillator_process osc =
     (let f = oscFrequency osc * freqSmoothCoef osc
                + targetFrequency osc * (1 - freqSmoothCoef osc);
          a = amplitude osc * ampSmoothCoef osc
                + targetAmplitude osc * (1 - ampSmoothCoef osc);
          osc1 = osc\<lparr>oscFrequency := f, amplitude := a\<rparr>
      in if f \<le> 0 \<or> a < 0.0001 then (0, osc1)
         else
           let sample = waveform_sample (waveform osc) (oscSampleRate osc) f (phase osc);
               ph = phase osc + f / oscSampleRate osc
           in (sample * a, osc1\<lparr>phase := (if ph \<ge> 1 then ph - 1 else ph)\<rparr>))"

text \<open>
  The oscillator of the FFT variant of the processor: the triangle is the piecewise
  linear wave itself, the sawtooth always sums the harmonics \<open>1\<close> to \<open>8\<close>.
\<close>

definition sawtooth_ks_fft :: "int list" where
  \<comment> \<open>\<^verbatim>\<open>for (k = 1; k <= 8; k++)\<close>\<close>
  "sawtooth_ks_fft = [1 .. 8]"

definition waveform_sample_fft :: "WaveformType \<Rightarrow> real \<Rightarrow> real" where
  "waveform_sample_fft w ph =
     (case w of
        Sine \<Rightarrow> sin (2 * pi * ph)
      | Triangle \<Rightarrow> 4 * \<bar>ph - 0.5\<bar> - 1
      | Sawtooth \<Rightarrow>
          (\<Sum>k\<leftarrow>sawtooth_ks_fft. sin (2 * pi * real_of_int k * ph) / real_of_int k) * 0.5)"

definition Oscillator_process_fft :: "Oscillator \<Rightarrow> real \<times> Oscillator" where
  "Oscillator_process_fft osc =
     (let f = oscFrequency osc * freqSmoothCoef osc
                + targetFrequency osc * (1 - freqSmoothCoef osc);
          a = amplitude osc * ampSmoothCoef osc
                + targetAmplitude osc * (1 - ampSmoothCoef osc);
          osc1 = osc\<lparr>oscFrequency := f, amplitude := a\<rparr>
      in if f \<le> 0 \<or> a < 0.0001 then (0, osc1)
         else
           let sample = waveform_sample_fft (waveform osc) (phase osc);
               ph = phase osc + f / oscSampleRate osc
           in (sample * a, osc1\<lparr>phase := (if ph \<ge> 1 then ph - 1 else ph)\<rparr>))"

section \<open>processor.js: IntonationMirrorProcessor\<close>

datatype ReferenceMode = Mirror | Quantize | Scale

record ScaleConfig =
  root :: int
  intervals :: "int list"
  name :: string

record AudioConfig =
  referenceMode :: ReferenceMode
  a4Tuning :: real
  waveformType :: WaveformType
  pitchCount :: nat
  outputLevel :: real
  stabilitySmoothing :: real
  inputThreshold :: real
  confidenceThreshold :: real
  attackTime :: real
  releaseTime :: real
  scale :: "ScaleConfig option"
  enableMicMonitoring :: bool

record PitchInfo =
  frequency :: real
  confidence :: real
  midiNote :: real
  noteName :: string
  cents :: real
  referenceFrequency :: real

text \<open>
  The per-voice arrays of the processor, each of length \<open>3\<close> in the source.
\<close>

record Processor =
  smoothedPitches :: "real list"
  smoothedConfidences :: "real list"
  noteHysteresis :: "int list"
  lastQuantizedMidi :: "int list"

definition quantize_update :: "Processor \<Rightarrow> int \<Rightarrow> nat \<Rightarrow> Processor" where
  \<comment> \<open>the \<^verbatim>\<open>if\<close> statement of the \<^verbatim>\<open>'quantize'\<close> case\<close>
  "quantize_update st targetMidi index =
     (if targetMidi \<noteq> lastQuantizedMidi st ! index
      then
        let st1 = st\<lparr>noteHysteresis :=
                       (noteHysteresis st)[index := noteHysteresis st ! index + 1]\<rparr>
        in if noteHysteresis st1 ! index \<ge> 3
           then st1\<lparr>lastQuantizedMidi := (lastQuantizedMidi st1)[index := targetMidi],
                    noteHysteresis := (noteHysteresis st1)[index := 0]\<rparr>
           else st1
      else st\<lparr>noteHysteresis := (noteHysteresis st)[index := 0]\<rparr>)"

definition scale_targetMidi :: "int \<Rightarrow> ScaleConfig \<Rightarrow> int" where
  \<comment> \<open>the note number whose tempered frequency the \<^verbatim>\<open>'scale'\<close> case returns\<close>
  "scale_targetMidi midi sc =
     (let noteClass = scaleNoteClass midi (root sc) in
      if noteClass \<in> set (intervals sc) then midi
      else
        let nearestInterval = nearestIntervalLoop noteClass (intervals sc) (Some 12) 0;
            octave = Math_floor (real_of_int midi / 12)
        in octave * 12 + root sc + nearestInterval)"

definition getSynthFrequency ::
  "AudioConfig \<Rightarrow> Processor \<Rightarrow> PitchInfo \<Rightarrow> nat \<Rightarrow> real \<times> Processor" where
  "getSynthFrequency cfg st pitch index =
     (if frequency pitch \<le> 0 then (0, st)
      else
        let a4 = a4Tuning cfg in
        case referenceMode cfg of
          Mirror \<Rightarrow> (frequency pitch, st)
        | Quantize \<Rightarrow>
            (let targetMidi = Math_round (midiNote pitch);
                 st' = quantize_update st targetMidi index
             in (a4 * Math_pow2 ((real_of_int (lastQuantizedMidi st' ! index) - 69) / 12),
                 st'))
        | Scale \<Rightarrow>
            (case scale cfg of
               None \<Rightarrow> (referenceFrequency pitch, st)
             | Some sc \<Rightarrow>
                 (let midi = Math_round (midiNote pitch)
                  in (a4 * Math_pow2 ((real_of_int (scale_targetMidi midi sc) - 69) / 12),
                      st))))"

text \<open>
  Successive hops: \<open>process\<close> calls \<open>getSynthFrequency\<close> once per hop for a voice whose
  pitch is detected while the gate is open. \<open>getSynthFrequency_hops\<close> lists the processor
  states after each of these calls.
\<close>

primrec getSynthFrequency_hops ::
  "AudioConfig \<Rightarrow> Processor \<Rightarrow> nat \<Rightarrow> PitchInfo list \<Rightarrow> Processor list" where
  "getSynthFrequency_hops cfg st index [] = []"
| "getSynthFrequency_hops cfg st index (pitch # pitches) =
     (let st' = snd (getSynthFrequency cfg st pitch index)
      in st' # getSynthFrequency_hops cfg st' index pitches)"

definition committed_notes ::
  "AudioConfig \<Rightarrow> Processor \<Rightarrow> nat \<Rightarrow> PitchInfo list \<Rightarrow> int list" where
  \<comment> \<open>\<^verbatim>\<open>lastQuantizedMidi[index]\<close> after each hop\<close>
  "committed_notes cfg st index pitches =
     map (\<lambda>s. lastQuantizedMidi s ! index) (getSynthFrequency_hops cfg st index pitches)"

definition proposals :: "PitchInfo list \<Rightarrow> int list" where
  \<comment> \<open>the note each hop proposes: \<^verbatim>\<open>Math.round(pitch.midiNote)\<close>\<close>
  "proposals pitches = map (\<lambda>p. Math_round (midiNote p)) pitches"

text \<open>
  The smoothing block of \<open>process\<close> (YIN variant), run on each hop with the detector's
  estimate. A NaN confidence fails the comparison with the threshold. The logarithm of
  the frequency ratio is NaN for a negative previous frequency, and the comparison with
  \<open>0.5\<close> is then false.
\<close>

definition accepted :: "AudioConfig \<Rightarrow> PitchEstimate \<Rightarrow> bool" where
  \<comment> \<open>\<^verbatim>\<open>frequency > 0 && confidence > this.config.confidenceThreshold * 0.5\<close>\<close>
  "accepted cfg est =
     (est_frequency est > 0
      \<and> js_lt (Num (confidenceThreshold cfg * 0.5)) (est_confidence est))"

definition est_value :: "jsnum \<Rightarrow> real" where
  \<comment> \<open>the number in a confidence that passed the comparison: it is not NaN\<close>
  "est_value c = (case c of Num x \<Rightarrow> x | NaN \<Rightarrow> 0)"

definition process_smoothing :: "AudioConfig \<Rightarrow> Processor \<Rightarrow> PitchEstimate \<Rightarrow> Processor" where
  "process_smoothing cfg st est =
     (let alpha = stabilitySmoothing cfg;
          f = est_frequency est;
          c = est_value (est_confidence est)
      in if accepted cfg est
         then
           let prevFreq = smoothedPitches st ! 0 in
           if prevFreq = 0 \<or> (0 < prevFreq \<and> \<bar>Math_log2 (f / prevFreq)\<bar> < 0.5)
           then st\<lparr>smoothedPitches := (smoothedPitches st)
                      [0 := (if prevFreq = 0 then f else prevFreq * alpha + f * (1 - alpha))],
                    smoothedConfidences := (smoothedConfidences st)
                      [0 := smoothedConfidences st ! 0 * alpha + c * (1 - alpha)]\<rparr>
           else st\<lparr>smoothedPitches := (smoothedPitches st)[0 := f],
                    smoothedConfidences := (smoothedConfidences st)[0 := c * 0.5]\<rparr>
         else
           let st1 = st\<lparr>smoothedConfidences := (smoothedConfidences st)
                           [0 := smoothedConfidences st ! 0 * 0.9]\<rparr>
           in if smoothedConfidences st1 ! 0 < 0.05
              then st1\<lparr>smoothedPitches := (smoothedPitches st1)[0 := 0]\<rparr>
              else st1)"

text \<open>
  The same block in the FFT variant: the accepted estimate is always blended with the
  previous frequency; the decay branch is the same.
\<close>

definition process_smoothing_fft ::
  "AudioConfig \<Rightarrow> Processor \<Rightarrow> PitchEstimate \<Rightarrow> Processor" where
  "process_smoothing_fft cfg st est =
     (let alpha = stabilitySmoothing cfg;
          f = est_frequency est;
          c = est_value (est_confidence est)
      in if accepted cfg est
         then
           let prevFreq = smoothedPitches st ! 0 in
           if prevFreq = 0 \<or> (0 < prevFreq \<and> \<bar>Math_log2 (f / prevFreq)\<bar> < 0.5)
           then st\<lparr>smoothedPitches := (smoothedPitches st)
                      [0 := smoothedPitches st ! 0 * alpha + f * (1 - alpha)],
                    smoothedConfidences := (smoothedConfidences st)
                      [0 := smoothedConfidences st ! 0 * alpha + c * (1 - alpha)]\<rparr>
           else st\<lparr>smoothedPitches := (smoothedPitches st)[0 := f],
                    smoothedConfidences := (smoothedConfidences st)[0 := c * 0.5]\<rparr>
         else
           let st1 = st\<lparr>smoothedConfidences := (smoothedConfidences st)
                           [0 := smoothedConfidences st ! 0 * 0.9]\<rparr>
           in if smoothedConfidences st1 ! 0 < 0.05
              then st1\<lparr>smoothedPitches := (smoothedPitches st1)[0 := 0]\<rparr>
              else st1)"

definition rejected :: "AudioConfig \<Rightarrow> PitchEstimate \<Rightarrow> bool" where
  \<comment> \<open>an estimate whose frequency is \<open>0\<close> or whose confidence does not exceed half the
      configured threshold\<close>
  "rejected cfg est =
     (est_frequency est = 0
      \<or> \<not> js_lt (Num (confidenceThreshold cfg * 0.5)) (est_confidence est))"

definition defaultConfig :: AudioConfig where
  \<comment> \<open>\<^verbatim>\<open>this.config\<close> as the constructor (YIN variant) sets it\<close>
  "defaultConfig =
     \<lparr>referenceMode = Quantize, a4Tuning = 440, waveformType = Sine, pitchCount = 1,
      outputLevel = 0.5, stabilitySmoothing = 0.8, inputThreshold = - 60,
      confidenceThreshold = 0.15, attackTime = 10, releaseTime = 80,
      scale = None, enableMicMonitoring = False\<rparr>"

definition hops :: "AudioConfig \<Rightarrow> Processor \<Rightarrow> PitchEstimate list \<Rightarrow> Processor" where
  \<comment> \<open>the smoothing block run on successive hops, one estimate per hop\<close>
  "hops cfg st ests = foldl (process_smoothing cfg) st ests"

definition hops_fft :: "AudioConfig \<Rightarrow> Processor \<Rightarrow> PitchEstimate list \<Rightarrow> Processor" where
  "hops_fft cfg st ests = foldl (process_smoothing_fft cfg) st ests"

definition Processor_new :: Processor where
  \<comment> \<open>the four arrays as the constructor sets them\<close>
  "Processor_new =
     \<lparr>smoothedPitches = [0, 0, 0], smoothedConfidences = [0, 0, 0],
      noteHysteresis = [0, 0, 0], lastQuantizedMidi = [0, 0, 0]\<rparr>"

definition notePitch :: "real \<Rightarrow> PitchInfo" where
  \<comment> \<open>a detected pitch at the fractional note number \<open>m\<close>, for the tuning \<open>A4 = 440\<close>\<close>
  "notePitch m =
     \<lparr>frequency = midiToFrequency m 440, confidence = 1, midiNote = m, noteName = [],
      cents = 1200 * Math_log2 (midiToFrequency m 440
                                 / midiToFrequency (real_of_int (Math_round m)) 440),
      referenceFrequency = midiToFrequency (real_of_int (Math_round m)) 440\<rparr>"

definition majorScale :: "int \<Rightarrow> ScaleConfig" where
  \<comment> \<open>\<^verbatim>\<open>{ ...SCALES.major, root }\<close>\<close>
  "majorScale r = \<lparr>root = r, intervals = [0, 2, 4, 5, 7, 9, 11], name = ''Major''\<rparr>"

section \<open>Notions used in the proofs\<close>

text \<open>One voice of the quantize branch: the committed note and the counter.\<close>

definition voice_step :: "int \<times> int \<Rightarrow> int \<Rightarrow> int \<times> int" where
  "voice_step s t =
     (if t \<noteq> fst s then (if snd s + 1 \<ge> 3 then (t, 0) else (fst s, snd s + 1))
      else (fst s, 0))"

primrec voice_run :: "int \<times> int \<Rightarrow> int list \<Rightarrow> (int \<times> int) list" where
  "voice_run s [] = []"
| "voice_run s (t # ts) = voice_step s t # voice_run (voice_step s t) ts"

definition voice :: "Processor \<Rightarrow> nat \<Rightarrow> int \<times> int" where
  "voice st index = (lastQuantizedMidi st ! index, noteHysteresis st ! index)"

definition wf_voice :: "Processor \<Rightarrow> nat \<Rightarrow> bool" where
  "wf_voice st index \<longleftrightarrow>
     index < length (lastQuantizedMidi st) \<and> index < length (noteHysteresis st)"

definition committed60 :: Processor where
  "committed60 = Processor_new\<lparr>lastQuantizedMidi := [60, 0, 0]\<rparr>"

text \<open>A store with a ring of capacity \<open>4\<close> at address \<open>0\<close> and an array at address \<open>1\<close>.\<close>

definition demo_arrays :: arrays where
  "demo_arrays = (\<lambda>_. [])(0 := [5, 2, 3, 4], 1 := [9, 9])"

definition demo_ring :: RingBufferRef where
  "demo_ring = \<lparr>storage = 0, refWriteIndex = 1, refAvailable = 4\<rparr>"

text \<open>
  The frequency and the amplitude of an oscillator after the smoothing step that opens
  \<open>process\<close>.
\<close>

definition smoothedFrequency :: "Oscillator \<Rightarrow> real" where
  "smoothedFrequency osc =
     oscFrequency osc * freqSmoothCoef osc + targetFrequency osc * (1 - freqSmoothCoef osc)"

definition smoothedAmplitude :: "Oscillator \<Rightarrow> real" where
  "smoothedAmplitude osc =
     amplitude osc * ampSmoothCoef osc + targetAmplitude osc * (1 - ampSmoothCoef osc)"

section \<open>Note numbers and cents\<close>

lemma log2_pow2: "Math_log2 (Math_pow2 x) = x"
  by (simp add: Math_log2_def Math_pow2_def)

lemma midi_round_trip_exact:
  assumes "0 < a4"
  shows "frequencyToMidi (midiToFrequency m a4) a4 = m"
proof -
  have "midiToFrequency m a4 / a4 = Math_pow2 ((m - 69) / 12)"
    using assms by (simp add: midiToFrequency_def)
  then have "Math_log2 (midiToFrequency m a4 / a4) = (m - 69) / 12"
    by (simp only: log2_pow2)
  then show ?thesis
    unfolding frequencyToMidi_def by simp
qed

text \<open>
  C8. For every note number \<open>m\<close> and every tuning reference \<open>a4 > 0\<close>, converting the
  note to a frequency and back gives \<open>m\<close> again: exactly over the reals, hence within the
  tolerance \<open>1e-6\<close> of the specification.
\<close>

theorem midi_round_trip:
  assumes "0 < a4"
  shows "frequencyToMidi (midiToFrequency m a4) a4 = m
       \<and> \<bar>frequencyToMidi (midiToFrequency m a4) a4 - m\<bar> \<le> 1 / 10 ^ 6"
  using midi_round_trip_exact [OF assms] by simp

theorem midi_round_trip_witness:
  "(0::real) < 440
   \<and> frequencyToMidi (midiToFrequency 60 440) 440 = 60
   \<and> \<bar>frequencyToMidi (midiToFrequency 60 440) 440 - 60\<bar> \<le> 1 / 10 ^ 6"
proof -
  have h: "(0::real) < 440" by simp
  show ?thesis using h midi_round_trip [OF h, of 60] by simp
qed

lemma cents_semitone_above:
  assumes "0 < f"
  shows "frequencyToCents (f * Math_pow2 (1 / 12)) f = 100"
proof -
  have "f * Math_pow2 (1 / 12) / f = Math_pow2 (1 / 12)"
    using assms by simp
  then have "Math_log2 (f * Math_pow2 (1 / 12) / f) = 1 / 12"
    by (simp only: log2_pow2)
  then show ?thesis
    unfolding frequencyToCents_def by simp
qed

lemma cents_semitone_below:
  assumes "0 < f"
  shows "frequencyToCents f (f * Math_pow2 (1 / 12)) = - 100"
proof -
  have "f / (f * Math_pow2 (1 / 12)) = 1 / Math_pow2 (1 / 12)"
    using assms by simp
  also have "\<dots> = Math_pow2 (- (1 / 12))"
    unfolding Math_pow2_def by (rule powr_minus_divide [symmetric])
  finally have "f / (f * Math_pow2 (1 / 12)) = Math_pow2 (- (1 / 12))" .
  then have "Math_log2 (f / (f * Math_pow2 (1 / 12))) = - (1 / 12)"
    by (simp only: log2_pow2)
  then show ?thesis
    unfolding frequencyToCents_def by simp
qed

text \<open>
  C9 as stated fails. \<open>frequencyToCents\<close> takes the frequency first and the reference
  second, so a reference one tempered semitone above the frequency gives \<open>-100\<close> cents,
  not \<open>100\<close>: at \<open>f = 440\<close> the value is not within one cent of \<open>100\<close>.
\<close>

theorem cents_semitone_counterexample:
  "\<not> \<bar>frequencyToCents 440 (440 * Math_pow2 (1 / 12)) - 100\<bar> < 1"
proof -
  have "frequencyToCents 440 (440 * Math_pow2 (1 / 12)) = - 100"
    by (rule cents_semitone_below) simp
  then show ?thesis by simp
qed

text \<open>
  C9, amended. For every frequency \<open>f > 0\<close>: a frequency measured against itself is
  \<open>0\<close> cents; a frequency one tempered semitone above its reference is \<open>100\<close> cents;
  a frequency one tempered semitone below its reference is \<open>-100\<close> cents.
\<close>

theorem cents_invariant:
  assumes "0 < f"
  shows "frequencyToCents f f = 0
       \<and> frequencyToCents (f * Math_pow2 (1 / 12)) f = 100
       \<and> frequencyToCents f (f * Math_pow2 (1 / 12)) = - 100"
proof -
  have "frequencyToCents f f = 0"
    using assms by (simp add: frequencyToCents_def Math_log2_def)
  then show ?thesis
    using cents_semitone_above [OF assms] cents_semitone_below [OF assms] by simp
qed

theorem cents_invariant_witness:
  "(0::real) < 440
   \<and> frequencyToCents 440 440 = 0
   \<and> frequencyToCents (440 * Math_pow2 (1 / 12)) 440 = 100
   \<and> frequencyToCents 440 (440 * Math_pow2 (1 / 12)) = - 100"
proof -
  have h: "(0::real) < 440" by simp
  show ?thesis using h cents_invariant [OF h] by simp
qed

section \<open>RingBuffer: reads return the most recent samples\<close>

lemma js_rem_nonneg: "0 \<le> a \<Longrightarrow> 0 < b \<Longrightarrow> js_rem a b = a mod b"
  by (cases "a = 0") (simp_all add: js_rem_def)

lemma write_append: "RingBuffer_write rb (xs @ ys) = RingBuffer_write (RingBuffer_write rb xs) ys"
  by (induction xs arbitrary: rb) simp_all

lemma writes_concat: "writes rb blocks = RingBuffer_write rb (concat blocks)"
  unfolding writes_def
  by (induction blocks arbitrary: rb) (simp_all add: write_append)

lemma write_snoc: "RingBuffer_write rb (xs @ [x]) = RingBuffer_write_step (RingBuffer_write rb xs) x"
  by (simp add: write_append)

lemma mod_distinct:
  fixes p L N :: nat
  assumes "p < L" "L < p + N"
  shows "p mod N \<noteq> L mod N"
proof
  assume "p mod N = L mod N"
  then have "N dvd (L - p)"
    using assms by (metis mod_eq_dvd_iff_nat less_imp_le)
  moreover have "0 < L - p" "L - p < N" using assms by auto
  ultimately show False by (meson dvd_imp_le not_less)
qed

lemma write_invariant:
  assumes "0 < N"
  shows "length (buffer (RingBuffer_write (RingBuffer_new N) xs)) = N
       \<and> writeIndex (RingBuffer_write (RingBuffer_new N) xs) = length xs mod N
       \<and> available (RingBuffer_write (RingBuffer_new N) xs) = min (length xs) N
       \<and> (\<forall>p < length xs. length xs \<le> p + N \<longrightarrow>
            buffer (RingBuffer_write (RingBuffer_new N) xs) ! (p mod N) = xs ! p)"
proof (induction xs rule: rev_induct)
  case Nil
  show ?case by (simp add: RingBuffer_new_def)
next
  case (snoc x xs)
  let ?rb = "RingBuffer_write (RingBuffer_new N) xs"
  let ?L = "length xs"
  from snoc have len: "length (buffer ?rb) = N"
    and wi: "writeIndex ?rb = ?L mod N"
    and av: "available ?rb = min ?L N"
    and old: "\<And>p. p < ?L \<Longrightarrow> ?L \<le> p + N \<Longrightarrow> buffer ?rb ! (p mod N) = xs ! p"
    by auto
  have lt: "?L mod N < N" using assms by simp
  have 1: "length (buffer (RingBuffer_write_step ?rb x)) = N"
    by (simp add: RingBuffer_write_step_def len)
  have 2: "writeIndex (RingBuffer_write_step ?rb x) = (?L + 1) mod N"
    by (simp add: RingBuffer_write_step_def len wi mod_simps)
  have 3: "available (RingBuffer_write_step ?rb x) = min (?L + 1) N"
    by (simp add: RingBuffer_write_step_def len av min_def)
  have 4: "buffer (RingBuffer_write_step ?rb x) ! (p mod N) = (xs @ [x]) ! p"
    if "p < ?L + 1" "?L + 1 \<le> p + N" for p
  proof (cases "p = ?L")
    case True
    then show ?thesis using lt by (simp add: RingBuffer_write_step_def len wi)
  next
    case False
    with that have p: "p < ?L" "?L < p + N" by auto
    then have "p mod N \<noteq> ?L mod N" by (rule mod_distinct)
    then have "buffer (RingBuffer_write_step ?rb x) ! (p mod N) = buffer ?rb ! (p mod N)"
      by (simp add: RingBuffer_write_step_def wi)
    also have "\<dots> = xs ! p" using p by (intro old) auto
    finally show ?thesis using p by (simp add: nth_append)
  qed
  show ?case
    unfolding write_snoc using 1 2 3 4 by simp
qed

lemma read_index_recent:
  assumes "0 < N" "length (buffer rb) = N" "writeIndex rb = L mod N"
    and "M \<le> N" "M \<le> L" "i < M"
  shows "nat (read_index rb M i) = (L - M + i) mod N"
proof -
  let ?v = "int (L mod N) - int M + int i + int N"
  have nonneg: "0 \<le> ?v" using assms by simp
  have "?v = (int L mod int N + (int i - int M)) + int N"
    by (simp add: zmod_int)
  then have "?v mod int N = (int L mod int N + (int i - int M)) mod int N"
    by (simp only: mod_add_self2)
  also have "\<dots> = (int L + (int i - int M)) mod int N"
    by (rule mod_add_left_eq)
  finally have "?v mod int N = (int L - int M + int i) mod int N"
    by (simp add: algebra_simps)
  also have "int L - int M + int i = int (L - M + i)"
    using assms(5) by simp
  also have "int (L - M + i) mod int N = int ((L - M + i) mod N)"
    by (simp only: zmod_int)
  finally have "read_index rb M i = int ((L - M + i) mod N)"
    using assms nonneg by (simp add: read_index_def js_rem_nonneg)
  then show ?thesis by simp
qed

text \<open>
  The index that \<open>read\<close> computes is inside the storage, so the source never reads
  \<^verbatim>\<open>undefined\<close> from it.
\<close>

lemma read_index_in_range:
  assumes "0 < N" and "M \<le> N" and "M \<le> length xs" and "i < M"
  shows "0 \<le> read_index (RingBuffer_write (RingBuffer_new N) xs) M i
       \<and> read_index (RingBuffer_write (RingBuffer_new N) xs) M i
           < int (length (buffer (RingBuffer_write (RingBuffer_new N) xs)))"
proof -
  note inv = write_invariant [OF assms(1), of xs]
  have v: "0 \<le> int (length xs mod N) - int M + int i + int N"
    using assms by simp
  have "read_index (RingBuffer_write (RingBuffer_new N) xs) M i
          = (int (length xs mod N) - int M + int i + int N) mod int N"
    using inv assms(1) v by (simp add: read_index_def js_rem_nonneg)
  then show ?thesis using inv assms(1) by simp
qed

lemma read_after_write:
  assumes N: "0 < N" and M: "length out \<le> N"
  shows "RingBuffer_read (RingBuffer_write (RingBuffer_new N) xs) out =
          (if length out \<le> length xs
           then (RingBuffer_write (RingBuffer_new N) xs, True, drop (length xs - length out) xs)
           else (RingBuffer_write (RingBuffer_new N) xs, False, out))"
proof -
  let ?rb = "RingBuffer_write (RingBuffer_new N) xs"
  let ?L = "length xs" and ?M = "length out"
  note inv = write_invariant [OF N, of xs]
  show ?thesis
  proof (cases "?M \<le> ?L")
    case False
    then show ?thesis using inv M by (simp add: RingBuffer_read_def)
  next
    case True
    have avail: "\<not> available ?rb < ?M" using inv M True by simp
    have "map (\<lambda>i. buffer ?rb ! nat (read_index ?rb ?M i)) [0..<?M] = drop (?L - ?M) xs"
    proof (rule nth_equalityI)
      show "length (map (\<lambda>i. buffer ?rb ! nat (read_index ?rb ?M i)) [0..<?M])
            = length (drop (?L - ?M) xs)"
        using True by simp
    next
      fix i assume "i < length (map (\<lambda>i. buffer ?rb ! nat (read_index ?rb ?M i)) [0..<?M])"
      then have i: "i < ?M" by simp
      have idx: "nat (read_index ?rb ?M i) = (?L - ?M + i) mod N"
        using inv N M True i by (intro read_index_recent) auto
      have "buffer ?rb ! ((?L - ?M + i) mod N) = xs ! (?L - ?M + i)"
        using inv True i M by auto
      then show "map (\<lambda>i. buffer ?rb ! nat (read_index ?rb ?M i)) [0..<?M] ! i
                 = drop (?L - ?M) xs ! i"
        using i True idx by simp
    qed
    then show ?thesis using avail True by (simp add: RingBuffer_read_def)
  qed
qed

text \<open>
  C4. Take a buffer of capacity \<open>capacity > 0\<close>, any sequence of blocks written into
  it since its construction, and an array of length \<open>M \<le> capacity\<close> to read into. If
  at least \<open>M\<close> samples have been written in all, \<open>read\<close> answers \<open>true\<close> and fills the
  array with the last \<open>M\<close> samples written, oldest first. If fewer have been written,
  \<open>read\<close> answers \<open>false\<close> and leaves the array as it was.
\<close>

theorem ring_buffer_read_most_recent:
  assumes "0 < capacity" and "length out \<le> capacity"
  shows "(length out \<le> length (concat blocks) \<longrightarrow>
            RingBuffer_read (writes (RingBuffer_new capacity) blocks) out =
              (writes (RingBuffer_new capacity) blocks, True,
               drop (length (concat blocks) - length out) (concat blocks)))
       \<and> (length (concat blocks) < length out \<longrightarrow>
            RingBuffer_read (writes (RingBuffer_new capacity) blocks) out =
              (writes (RingBuffer_new capacity) blocks, False, out))"
  unfolding writes_concat
  using read_after_write [OF assms, of "concat blocks"] by simp

theorem ring_buffer_read_most_recent_witness:
  "RingBuffer_read (writes (RingBuffer_new 4) [[1, 2, 3], [4, 5, 6]]) [0, 0, 0] =
     (writes (RingBuffer_new 4) [[1, 2, 3], [4, 5, 6]], True, [4, 5, 6])
   \<and> RingBuffer_read (writes (RingBuffer_new 4) [[1, 2]]) [0, 0, 0] =
     (writes (RingBuffer_new 4) [[1, 2]], False, [0, 0, 0])"
  using ring_buffer_read_most_recent [of 4 "[0, 0, 0]" "[[1, 2, 3], [4, 5, 6]]"]
    ring_buffer_read_most_recent [of 4 "[0, 0, 0]" "[[1, 2]]"]
  by simp

text \<open>
  On the store, a read into an array other than the storage is the read of the value
  model, stored at \<open>out\<close>. A read into the storage itself overwrites it.
\<close>

lemma read_loop_frame:
  "a \<noteq> out \<Longrightarrow> read_loop rb n out is h a = h a"
  unfolding read_loop_def
  by (induction "is" arbitrary: h) simp_all

lemma read_loop_snoc:
  "read_loop rb n out (is @ [i]) h =
     (read_loop rb n out is h)
       (out := (read_loop rb n out is h out)
          [i := read_loop rb n out is h (storage rb)
                  ! nat (js_rem (int (refWriteIndex rb) - int n + int i
                                   + int (length (read_loop rb n out is h (storage rb))))
                          (int (length (read_loop rb n out is h (storage rb)))))])"
  unfolding read_loop_def by simp

lemma read_loop_prefix:
  assumes "out \<noteq> storage rb" and "m \<le> length (h out)"
  shows "read_loop rb n out [0..<m] h out =
           map (\<lambda>i. buffer (deref h rb) ! nat (read_index (deref h rb) n i)) [0..<m]
           @ drop m (h out)"
  using assms(2)
proof (induction m)
  case 0
  show ?case by (simp add: read_loop_def)
next
  case (Suc m)
  let ?h = "read_loop rb n out [0..<m] h"
  let ?f = "\<lambda>i. buffer (deref h rb) ! nat (read_index (deref h rb) n i)"
  have b: "?h (storage rb) = h (storage rb)"
    using assms(1) by (simp add: read_loop_frame)
  have ih: "?h out = map ?f [0..<m] @ drop m (h out)"
    using Suc by simp
  have d: "drop m (h out) = h out ! m # drop (Suc m) (h out)"
    using Suc.prems by (simp add: Cons_nth_drop_Suc)
  have "read_loop rb n out [0..<Suc m] h out = (?h out)[m := ?f m]"
    by (simp add: read_loop_snoc b deref_def read_index_def)
  also have "\<dots> = map ?f [0..<Suc m] @ drop (Suc m) (h out)"
    by (simp add: ih list_update_append) (simp add: d)
  finally show ?case .
qed

lemma RingBuffer_read_at_functional:
  assumes "out \<noteq> storage rb"
  shows "RingBuffer_read_at h rb out =
           (rb, fst (snd (RingBuffer_read (deref h rb) (h out))),
            h(out := snd (snd (RingBuffer_read (deref h rb) (h out)))))"
proof (cases "refAvailable rb < length (h out)")
  case True
  then show ?thesis by (simp add: RingBuffer_read_at_def RingBuffer_read_def deref_def)
next
  case False
  let ?n = "length (h out)"
  have o: "read_loop rb ?n out [0..<?n] h out =
             map (\<lambda>i. buffer (deref h rb) ! nat (read_index (deref h rb) ?n i)) [0..<?n]"
    using read_loop_prefix [OF assms, of ?n h ?n] by simp
  have "read_loop rb ?n out [0..<?n] h = h(out := read_loop rb ?n out [0..<?n] h out)"
    by (rule ext) (simp add: read_loop_frame)
  then show ?thesis
    using False by (simp add: RingBuffer_read_at_def RingBuffer_read_def o) (simp add: deref_def)
qed

lemma read_aliased:
  "fst (snd (RingBuffer_read_at ((\<lambda>_. [])(0 := [1, 2]))
               \<lparr>storage = 0, refWriteIndex = 1, refAvailable = 2\<rparr> 0)) = True"
  "snd (snd (RingBuffer_read_at ((\<lambda>_. [])(0 := [1, 2]))
               \<lparr>storage = 0, refWriteIndex = 1, refAvailable = 2\<rparr> 0)) 0 = [2, 2]"
  by (simp_all add: RingBuffer_read_at_def read_loop_def js_rem_def upt_rec)

text \<open>
  C10. A successful \<open>read\<close> into an array that is not the ring's own storage leaves
  the buffer as it was: the write index, the count of available samples and the stored
  samples are unchanged, no array but the one read into changes, and a second \<open>read\<close>
  into an array of the same length, with no write in between, succeeds and returns the
  same samples.
\<close>

theorem ring_buffer_read_non_destructive:
  assumes "out \<noteq> storage rb" and "out2 \<noteq> storage rb"
    and "RingBuffer_read_at h rb out = (rb', True, h')"
    and "length (h' out2) = length (h' out)"
  shows "rb' = rb
       \<and> h' (storage rb) = h (storage rb)
       \<and> (\<forall>a. a \<noteq> out \<longrightarrow> h' a = h a)
       \<and> fst (snd (RingBuffer_read_at h' rb' out2))
       \<and> snd (snd (RingBuffer_read_at h' rb' out2)) out2 = h' out"
proof -
  let ?r = "RingBuffer_read (deref h rb) (h out)"
  from assms(3) have rb: "rb' = rb" and ok: "fst (snd ?r)" and h': "h' = h(out := snd (snd ?r))"
    by (auto simp: RingBuffer_read_at_functional [OF assms(1)])
  have av: "\<not> available (deref h rb) < length (h out)"
    using ok by (auto simp: RingBuffer_read_def split: if_splits)
  have data: "snd (snd ?r) = map (\<lambda>i. buffer (deref h rb)
                 ! nat (read_index (deref h rb) (length (h out)) i)) [0..<length (h out)]"
    using av by (simp add: RingBuffer_read_def)
  then have len: "length (h' out) = length (h out)" by (simp add: h')
  have same: "deref h' rb = deref h rb"
    using assms(1) by (simp add: deref_def h')
  have r2: "RingBuffer_read (deref h rb) (h' out2) = (deref h rb, True, snd (snd ?r))"
    using av assms(4) len by (simp add: RingBuffer_read_def data)
  have "RingBuffer_read_at h' rb out2 = (rb, True, h'(out2 := snd (snd ?r)))"
    by (simp add: RingBuffer_read_at_functional [OF assms(2)] same r2)
  then show ?thesis
    using assms(1) by (simp add: rb h')
qed

theorem ring_buffer_read_non_destructive_witness:
  "fst (snd (RingBuffer_read_at demo_arrays demo_ring 1))
   \<and> snd (snd (RingBuffer_read_at demo_arrays demo_ring 1)) 1 = [4, 5]
   \<and> snd (snd (RingBuffer_read_at demo_arrays demo_ring 1)) (storage demo_ring)
       = demo_arrays (storage demo_ring)
   \<and> snd (snd (RingBuffer_read_at (snd (snd (RingBuffer_read_at demo_arrays demo_ring 1)))
                  (fst (RingBuffer_read_at demo_arrays demo_ring 1)) 1)) 1
       = snd (snd (RingBuffer_read_at demo_arrays demo_ring 1)) 1"
proof -
  let ?r = "RingBuffer_read_at demo_arrays demo_ring 1"
  have ok: "fst (snd ?r)"
    by (simp add: RingBuffer_read_at_def demo_arrays_def demo_ring_def)
  have v: "snd (snd ?r) 1 = [4, 5]"
    by (simp add: RingBuffer_read_at_def read_loop_def demo_arrays_def demo_ring_def
          js_rem_def upt_rec)
  have eq: "?r = (fst ?r, True, snd (snd ?r))"
    using ok by (cases ?r) simp
  have n: "1 \<noteq> storage demo_ring" by (simp add: demo_ring_def)
  have l: "length (snd (snd ?r) 1) = length (snd (snd ?r) 1)" ..
  from ring_buffer_read_non_destructive [OF n n eq l] ok v
  show ?thesis by blast
qed

section \<open>The YIN detector\<close>

lemma fallback_value:
  "minVal = typed_at yin minTau \<Longrightarrow>
   snd (absoluteThreshold_fallback yin maxP tau minTau minVal)
     = typed_at yin (fst (absoluteThreshold_fallback yin maxP tau minTau minVal))"
proof (induction yin maxP tau minTau minVal rule: absoluteThreshold_fallback.induct)
  case (1 yin maxP tau minTau minVal)
  show ?case
  proof (cases "tau < maxP")
    case False
    then show ?thesis
      using "1.prems"
      by (simp add: absoluteThreshold_fallback.simps [of yin maxP tau])
  next
    case True
    show ?thesis
    proof (cases "js_lt (typed_at yin tau) minVal")
      case True
      with \<open>tau < maxP\<close> "1.IH"(1) show ?thesis
        by (simp add: absoluteThreshold_fallback.simps [of yin maxP tau])
    next
      case False
      with \<open>tau < maxP\<close> "1.IH"(2) "1.prems" show ?thesis
        by (simp add: absoluteThreshold_fallback.simps [of yin maxP tau])
    qed
  qed
qed

lemma absoluteThreshold_probability:
  "probability (snd (absoluteThreshold det))
     = js_sub (Num 1) (typed_at (yinBuffer det) (fst (absoluteThreshold det)))"
proof (cases "absoluteThreshold_search (yinBuffer det) (maxPeriod det) (minPeriod det)")
  case (Some tau)
  then show ?thesis by (simp add: absoluteThreshold_def)
next
  case None
  have "snd (absoluteThreshold_fallback (yinBuffer det) (maxPeriod det) (minPeriod det + 1)
               (minPeriod det) (typed_at (yinBuffer det) (minPeriod det)))
        = typed_at (yinBuffer det)
            (fst (absoluteThreshold_fallback (yinBuffer det) (maxPeriod det) (minPeriod det + 1)
               (minPeriod det) (typed_at (yinBuffer det) (minPeriod det))))"
    by (rule fallback_value) simp
  with None show ?thesis
    by (simp add: absoluteThreshold_def split_beta)
qed

lemma absoluteThreshold_frame:
  "yinBuffer (snd (absoluteThreshold det)) = yinBuffer det"
  "sampleRate (snd (absoluteThreshold det)) = sampleRate det"
  "halfBuffer (snd (absoluteThreshold det)) = halfBuffer det"
  by (simp_all add: absoluteThreshold_def split: option.splits prod.splits)

lemma computeDifference_frame:
  "sampleRate (computeDifference det buf) = sampleRate det"
  "halfBuffer (computeDifference det buf) = halfBuffer det"
  "minPeriod (computeDifference det buf) = minPeriod det"
  "maxPeriod (computeDifference det buf) = maxPeriod det"
  by (simp_all add: computeDifference_def)

text \<open>
  What \<open>detect\<close> returns, for every detector and every window: no detection when the
  refined lag is \<open>0\<close> or the candidate frequency is outside the band, otherwise the
  candidate frequency with the clamped value of \<open>1\<close> minus the entry at the chosen lag.
\<close>

lemma detect_result:
  fixes det buf
  defines "det1 \<equiv> computeDifference det buf"
  defines "tau \<equiv> fst (absoluteThreshold det1)"
  defines "refinedTau \<equiv> YINDetector_parabolicInterpolation (snd (absoluteThreshold det1)) tau"
  defines "f \<equiv> sampleRate det / refinedTau"
  shows "fst (detect det buf) =
           (if refinedTau = 0 \<or> f < MIN_FREQUENCY \<or> f > MAX_FREQUENCY then noDetection
            else \<lparr>est_frequency = f,
                  est_confidence = clamp01 (js_sub (Num 1) (typed_at (yinBuffer det1) tau))\<rparr>)"
  unfolding detect_def Let_def det1_def tau_def refinedTau_def f_def
  by (simp add: split_beta absoluteThreshold_probability absoluteThreshold_frame
        computeDifference_frame)

text \<open>
  A silent window. Every difference is \<open>0\<close>, every running sum is \<open>0\<close>, and every
  normalised entry from lag \<open>1\<close> on is NaN.
\<close>

lemma difference_silence:
  "half + tau \<le> n \<Longrightarrow> difference half (replicate n 0) tau = Num 0"
proof -
  assume "half + tau \<le> n"
  then have "map (\<lambda>i. (replicate n (0::real) ! i - replicate n 0 ! (i + tau))
                    * (replicate n 0 ! i - replicate n 0 ! (i + tau))) [0..<half]
             = map (\<lambda>i. 0) [0..<half]"
    by (intro map_cong) auto
  then have "(\<Sum>i\<leftarrow>[0..<half]. (replicate n (0::real) ! i - replicate n 0 ! (i + tau))
                    * (replicate n 0 ! i - replicate n 0 ! (i + tau))) = 0"
    by (simp only: sum_list_0)
  then show ?thesis
    using \<open>half + tau \<le> n\<close> by (simp add: difference_def)
qed

lemma normalise_silence:
  "normalise (replicate k (Num 0)) tau (Num 0) = replicate k NaN"
  by (induction k arbitrary: tau) simp_all

lemma computeDifference_silence:
  assumes "0 < halfBuffer det" and "2 * halfBuffer det \<le> n"
  shows "yinBuffer (computeDifference det (replicate n 0))
           = Num 1 # replicate (halfBuffer det - 1) NaN"
proof -
  let ?h = "halfBuffer det"
  have "map (difference ?h (replicate n 0)) [0..<?h] = replicate ?h (Num 0)"
    using assms(2) by (intro replicate_eqI) (auto simp: difference_silence)
  also have "\<dots> = Num 0 # replicate (?h - 1) (Num 0)"
    using assms(1) by (cases ?h) simp_all
  finally show ?thesis
    by (simp add: computeDifference_def normalise_silence)
qed

lemma typed_at_silence:
  "1 \<le> i \<Longrightarrow> typed_at (Num 1 # replicate k NaN) i = NaN"
  by (cases "nat i") (auto simp: typed_at_def)

lemma yin_silence:
  assumes "0 < halfBuffer det" and "2 * halfBuffer det \<le> n"
  shows "\<forall>i\<ge>1. typed_at (yinBuffer (computeDifference det (replicate n 0))) i = NaN"
  using typed_at_silence by (simp add: computeDifference_silence [OF assms])

lemma search_silence:
  "(\<forall>i\<ge>1. typed_at yin i = NaN) \<Longrightarrow> 1 \<le> tau \<Longrightarrow>
   absoluteThreshold_search yin maxP tau = None"
proof (induction yin maxP tau rule: absoluteThreshold_search.induct)
  case (1 yin maxP tau)
  then have "typed_at yin tau = NaN" by simp
  with 1 show ?case
    by (simp add: absoluteThreshold_search.simps [of yin maxP tau])
qed

lemma fallback_NaN:
  "absoluteThreshold_fallback yin maxP tau minTau NaN = (minTau, NaN)"
proof (induction yin maxP tau minTau NaN rule: absoluteThreshold_fallback.induct)
  case (1 yin maxP tau minTau)
  have "\<not> js_lt (typed_at yin tau) NaN" by (cases "typed_at yin tau") simp_all
  with 1 show ?case
    by (simp add: absoluteThreshold_fallback.simps [of yin maxP tau])
qed

text \<open>
  C6. The claim says that \<open>detect\<close> returns no detection when the candidate frequency
  is outside the band or not finite, and otherwise the candidate frequency with a
  confidence clamped to the interval from \<open>0\<close> to \<open>1\<close>. On a window of \<open>1024\<close> zero samples
  at a sample rate of \<open>48000\<close> Hz the detector of the processor returns the frequency
  \<open>2000\<close> with the confidence NaN: the entries of the normalised difference function are
  NaN, the fallback keeps the lag \<open>24\<close>, the frequency \<open>48000 / 24\<close> passes the check of
  the band, and the clamp of NaN is NaN.
\<close>

theorem detect_silence:
  "fst (detect (YINDetector_new 1024 48000) (replicate 1024 0))
     = \<lparr>est_frequency = 2000, est_confidence = NaN\<rparr>"
proof -
  let ?det = "YINDetector_new 1024 48000"
  let ?det1 = "computeDifference ?det (replicate 1024 0)"
  have h: "halfBuffer ?det = 512" "minPeriod ?det = 24" "maxPeriod ?det = 320"
    "sampleRate ?det = 48000"
    by (simp_all add: YINDetector_new_def Math_floor_def MAX_FREQUENCY_def MIN_FREQUENCY_def)
  have h1: "halfBuffer ?det1 = 512" "minPeriod ?det1 = 24" "maxPeriod ?det1 = 320"
    by (simp_all only: computeDifference_frame h)
  have yin: "\<forall>i\<ge>1. typed_at (yinBuffer ?det1) i = NaN"
    by (rule yin_silence) (simp_all add: h)
  have s: "absoluteThreshold_search (yinBuffer ?det1) 320 24 = None"
    by (rule search_silence [OF yin]) simp
  have y24: "typed_at (yinBuffer ?det1) 24 = NaN"
    "typed_at (yinBuffer ?det1) 23 = NaN" "typed_at (yinBuffer ?det1) 25 = NaN"
    using yin by simp_all
  have at: "absoluteThreshold ?det1 = (24, ?det1\<lparr>probability := NaN\<rparr>)"
    unfolding absoluteThreshold_def h1 s y24 fallback_NaN by simp
  have par: "YINDetector_parabolicInterpolation (?det1\<lparr>probability := NaN\<rparr>) 24 = 24"
    unfolding YINDetector_parabolicInterpolation_def using h1 y24 by simp
  have "fst (detect ?det (replicate 1024 0)) =
          (if (24::real) = 0 \<or> 48000 / 24 < MIN_FREQUENCY \<or> 48000 / 24 > MAX_FREQUENCY
           then noDetection
           else \<lparr>est_frequency = 48000 / 24, est_confidence = clamp01 (js_sub (Num 1) NaN)\<rparr>)"
    unfolding detect_result at fst_conv snd_conv par h y24 ..
  then show ?thesis
    by (simp add: MIN_FREQUENCY_def MAX_FREQUENCY_def)
qed

section \<open>Parabolic interpolation\<close>

text \<open>
  \<open>YINDetector.parabolicInterpolation\<close> returns the lag unchanged unless the three
  entries are numbers, the lag is inside the array, the denominator has magnitude at
  least \<open>1e-10\<close> and the adjustment has magnitude below \<open>1\<close>.
\<close>

lemma YIN_parabolic_guarded:
  "YINDetector_parabolicInterpolation det tau = real_of_int tau
   \<or> (\<exists>s0 s1 s2.
         typed_at (yinBuffer det) (tau - 1) = Num s0
       \<and> typed_at (yinBuffer det) tau = Num s1
       \<and> typed_at (yinBuffer det) (tau + 1) = Num s2
       \<and> 1 \<le> tau \<and> tau < int (halfBuffer det) - 1
       \<and> 1 / 10 ^ 10 \<le> \<bar>2 * s1 - s2 - s0\<bar>
       \<and> \<bar>(s2 - s0) / (2 * (2 * s1 - s2 - s0))\<bar> < 1
       \<and> YINDetector_parabolicInterpolation det tau
           = real_of_int tau + (s2 - s0) / (2 * (2 * s1 - s2 - s0)))"
  by (auto simp: YINDetector_parabolicInterpolation_def Let_def split: jsnum.splits)

text \<open>
  Both guards of \<open>parabolicInterpolation\<close> of pitch-utils.ts: at the boundary of the
  array and for a denominator of magnitude below \<open>1e-10\<close> the bin is returned unchanged.
\<close>

lemma parabolicInterpolation_boundary:
  "peakBin \<le> 0 \<or> int (length magnitudes) - 1 \<le> peakBin \<Longrightarrow>
   parabolicInterpolation magnitudes peakBin = real_of_int peakBin"
  by (simp add: parabolicInterpolation_def)

lemma parabolicInterpolation_small_denominator:
  "\<bar>magnitudes ! nat (peakBin - 1) - 2 * magnitudes ! nat peakBin
      + magnitudes ! nat (peakBin + 1)\<bar> < 1 / 10 ^ 10 \<Longrightarrow>
   parabolicInterpolation magnitudes peakBin = real_of_int peakBin"
  by (simp add: parabolicInterpolation_def Let_def)

text \<open>
  \<open>parabolicInterpolation\<close> of pitch-utils.ts has no check of the offset. At a bin that
  is a local maximum of the magnitudes the offset is at most half a bin.
\<close>

lemma parabolicInterpolation_at_peak:
  assumes "0 < peakBin" and "peakBin < int (length magnitudes) - 1"
    and "magnitudes ! nat (peakBin - 1) \<le> magnitudes ! nat peakBin"
    and "magnitudes ! nat (peakBin + 1) \<le> magnitudes ! nat peakBin"
  shows "\<bar>parabolicInterpolation magnitudes peakBin - real_of_int peakBin\<bar> \<le> 1 / 2"
proof -
  define a where "a = magnitudes ! nat peakBin - magnitudes ! nat (peakBin - 1)"
  define c where "c = magnitudes ! nat peakBin - magnitudes ! nat (peakBin + 1)"
  have ac: "0 \<le> a" "0 \<le> c" using assms(3,4) by (simp_all add: a_def c_def)
  let ?den = "magnitudes ! nat (peakBin - 1) - 2 * magnitudes ! nat peakBin
                + magnitudes ! nat (peakBin + 1)"
  have den: "?den = - (a + c)" by (simp add: a_def c_def)
  have num: "magnitudes ! nat (peakBin - 1) - magnitudes ! nat (peakBin + 1) = c - a"
    by (simp add: a_def c_def)
  show ?thesis
  proof (cases "\<bar>?den\<bar> < 1 / 10 ^ 10")
    case True
    then show ?thesis using assms(1,2) by (simp add: parabolicInterpolation_def Let_def)
  next
    case False
    then have pos: "0 < a + c" using den ac by auto
    have e1: "parabolicInterpolation magnitudes peakBin - real_of_int peakBin
            = 0.5 * (c - a) / (- (a + c))"
      using False assms(1,2) by (simp add: parabolicInterpolation_def Let_def num den)
    have e2: "\<bar>0.5 * (c - a) / (- (a + c))\<bar> = 0.5 * \<bar>c - a\<bar> / (a + c)"
      using pos by (simp add: abs_mult)
    have "\<bar>c - a\<bar> \<le> a + c" using ac by simp
    then have e3: "0.5 * \<bar>c - a\<bar> / (a + c) \<le> 1 / 2"
      using pos by (simp add: pos_divide_le_eq)
    have "\<bar>parabolicInterpolation magnitudes peakBin - real_of_int peakBin\<bar>
            = \<bar>0.5 * (c - a) / (- (a + c))\<bar>"
      by (simp only: e1)
    also have "\<dots> = 0.5 * \<bar>c - a\<bar> / (a + c)" by (rule e2)
    also have "\<dots> \<le> 1 / 2" by (rule e3)
    finally show ?thesis .
  qed
qed

text \<open>
  C5. The claim says that the refinement is applied only when the denominator is not
  negligible and the offset stays below one bin, and that the bin is returned unchanged
  otherwise. \<open>parabolicInterpolation\<close> of pitch-utils.ts, which
  \<open>harmonicProductSpectrum\<close> calls at the maximum of the product and not at a peak of
  the magnitudes, returns \<open>2.5\<close> for the bin \<open>1\<close> of the magnitudes \<open>1, 0.5, 0.25\<close>: an
  offset of \<open>1.5\<close> bins.
\<close>

theorem parabolicInterpolation_unchecked_offset:
  "parabolicInterpolation [1, 1 / 2, 1 / 4] 1 = 5 / 2
   \<and> \<not> \<bar>parabolicInterpolation [1, 1 / 2, 1 / 4] 1 - real_of_int 1\<bar> < 1"
  by (simp add: parabolicInterpolation_def)

section \<open>Oscillator harmonics and the Nyquist frequency\<close>

text \<open>
  When the oscillator sounds, the sample that \<open>process\<close> returns is the harmonic sum
  over these lists, taken at the smoothed frequency, times the smoothed amplitude.
\<close>

lemma Oscillator_process_sawtooth:
  assumes "waveform osc = Sawtooth"
    and "0 < smoothedFrequency osc" and "0.0001 \<le> smoothedAmplitude osc"
  shows "fst (Oscillator_process osc) =
           (\<Sum>k\<leftarrow>sawtooth_ks (oscSampleRate osc) (smoothedFrequency osc).
              sin (2 * pi * real_of_int k * phase osc) / real_of_int k)
           * (2 / pi) * smoothedAmplitude osc"
    and "fst (Oscillator_process_fft osc) =
           (\<Sum>k\<leftarrow>sawtooth_ks_fft. sin (2 * pi * real_of_int k * phase osc) / real_of_int k)
           * 0.5 * smoothedAmplitude osc"
  using assms
  by (simp_all add: Oscillator_process_def Oscillator_process_fft_def Let_def
        waveform_sample_def waveform_sample_fft_def smoothedFrequency_def
        smoothedAmplitude_def not_le not_less)

lemma Oscillator_process_triangle:
  assumes "waveform osc = Triangle"
    and "0 < smoothedFrequency osc" and "0.0001 \<le> smoothedAmplitude osc"
  shows "fst (Oscillator_process osc) =
           (\<Sum>k\<leftarrow>triangle_ks (oscSampleRate osc) (smoothedFrequency osc).
              (if js_rem k 2 = 0 then 1 else - 1)
                * sin (2 * pi * real_of_int (2 * k + 1) * phase osc)
                / (real_of_int (2 * k + 1) * real_of_int (2 * k + 1)))
           * (8 / (pi * pi)) * smoothedAmplitude osc"
  using assms
  by (simp add: Oscillator_process_def Let_def waveform_sample_def smoothedFrequency_def
        smoothedAmplitude_def not_le not_less)

lemma sawtooth_below_nyquist:
  assumes "0 < f" and "k \<in> set (sawtooth_ks sr f)"
  shows "real_of_int k * f \<le> sr / 2"
proof -
  from assms(2) have "k \<le> \<lfloor>sr / (2 * f)\<rfloor>"
    by (simp add: sawtooth_ks_def Math_floor_def)
  then have "real_of_int k \<le> sr / (2 * f)"
    by (simp add: le_floor_iff)
  then have "real_of_int k * (2 * f) \<le> sr"
    using assms(1) by (simp add: pos_le_divide_eq)
  then show ?thesis by simp
qed

lemma sawtooth_fft_nyquist_iff:
  assumes "0 < f"
  shows "(\<forall>k \<in> set sawtooth_ks_fft. real_of_int k * f \<le> sr / 2) \<longleftrightarrow> 8 * f \<le> sr / 2"
proof
  assume "\<forall>k \<in> set sawtooth_ks_fft. real_of_int k * f \<le> sr / 2"
  moreover have "8 \<in> set sawtooth_ks_fft" by (simp add: sawtooth_ks_fft_def)
  ultimately have "real_of_int 8 * f \<le> sr / 2" by blast
  then show "8 * f \<le> sr / 2" by simp
next
  assume h: "8 * f \<le> sr / 2"
  show "\<forall>k \<in> set sawtooth_ks_fft. real_of_int k * f \<le> sr / 2"
  proof
    fix k assume "k \<in> set sawtooth_ks_fft"
    then have "k \<le> 8" by (simp add: sawtooth_ks_fft_def)
    then have "real_of_int k \<le> 8" by simp
    then have "real_of_int k * f \<le> 8 * f"
      using assms by (intro mult_right_mono) auto
    then show "real_of_int k * f \<le> sr / 2" using h by simp
  qed
qed

text \<open>
  C3 as stated fails. The sawtooth of the FFT variant sums the harmonics \<open>1\<close> to \<open>8\<close>
  whatever the frequency: at \<open>4000\<close> Hz and a sample rate of \<open>48000\<close> Hz its eighth
  harmonic is at \<open>32000\<close> Hz, above the Nyquist frequency \<open>24000\<close> Hz.
\<close>

theorem sawtooth_fft_counterexample:
  "8 \<in> set sawtooth_ks_fft \<and> \<not> real_of_int 8 * 4000 \<le> 48000 / 2"
  by (simp add: sawtooth_ks_fft_def)

text \<open>
  The triangle of the YIN variant bounds the number of odd harmonics, not the harmonic
  number \<open>2 * k + 1\<close>, by \<open>floor (sr / (2 * f))\<close>: at \<open>2000\<close> Hz and \<open>48000\<close> Hz it sums
  ten terms, the last one the harmonic \<open>19\<close> at \<open>38000\<close> Hz.
\<close>

lemma triangle_harmonic_above_nyquist:
  "19 \<in> set (triangle_harmonics 48000 2000) \<and> \<not> real_of_int 19 * 2000 \<le> 48000 / 2"
  by (simp add: triangle_harmonics_def triangle_ks_def Math_floor_def upto_rec1)

text \<open>
  C3, amended. For every frequency \<open>f > 0\<close> and every sample rate \<open>sr\<close>: each
  harmonic \<open>k\<close> that the sawtooth of the YIN variant sums has \<open>k * f \<le> sr / 2\<close>; the
  harmonics \<open>1\<close> to \<open>8\<close> that the sawtooth of the FFT variant sums are all at or below
  \<open>sr / 2\<close> exactly when \<open>8 * f \<le> sr / 2\<close>.
\<close>

theorem sawtooth_harmonics_nyquist:
  assumes "0 < f"
  shows "(\<forall>k \<in> set (sawtooth_ks sr f). real_of_int k * f \<le> sr / 2)
       \<and> ((\<forall>k \<in> set sawtooth_ks_fft. real_of_int k * f \<le> sr / 2) \<longleftrightarrow> 8 * f \<le> sr / 2)"
  using sawtooth_below_nyquist [OF assms] sawtooth_fft_nyquist_iff [OF assms] by blast

theorem sawtooth_harmonics_nyquist_witness:
  "12 \<in> set (sawtooth_ks 48000 440) \<and> real_of_int 12 * 440 \<le> 48000 / 2
   \<and> 8 \<in> set sawtooth_ks_fft \<and> real_of_int 8 * 440 \<le> 48000 / 2"
proof -
  have f: "(0::real) < 440" by simp
  have m: "12 \<in> set (sawtooth_ks 48000 440)"
    by (simp add: sawtooth_ks_def Math_floor_def)
  have m8: "8 \<in> set sawtooth_ks_fft" by (simp add: sawtooth_ks_fft_def)
  have n: "(8::real) * 440 \<le> 48000 / 2" by simp
  show ?thesis
    using sawtooth_harmonics_nyquist [OF f, of 48000] m m8 n by blast
qed

section \<open>Decay of a rejected voice\<close>

lemma rejected_not_accepted: "rejected cfg est \<Longrightarrow> \<not> accepted cfg est"
  by (auto simp: rejected_def accepted_def)

lemma decay_step:
  assumes "rejected cfg est" and "smoothedPitches st \<noteq> []" and "smoothedConfidences st \<noteq> []"
  shows "smoothedConfidences (process_smoothing cfg st est) ! 0
           = smoothedConfidences st ! 0 * 0.9"
    and "smoothedPitches (process_smoothing cfg st est) ! 0
           = (if smoothedConfidences st ! 0 * 0.9 < 0.05 then 0 else smoothedPitches st ! 0)"
    and "smoothedPitches (process_smoothing cfg st est) \<noteq> []"
    and "smoothedConfidences (process_smoothing cfg st est) \<noteq> []"
  using assms rejected_not_accepted [OF assms(1)]
  by (simp_all add: process_smoothing_def Let_def)

lemma decay_run:
  assumes "\<forall>e \<in> set ests. rejected cfg e"
    and "smoothedPitches st \<noteq> []" and "smoothedConfidences st \<noteq> []"
  shows "smoothedConfidences (hops cfg st ests) ! 0
           = smoothedConfidences st ! 0 * 0.9 ^ length ests
       \<and> smoothedPitches (hops cfg st ests) \<noteq> []
       \<and> smoothedConfidences (hops cfg st ests) \<noteq> []
       \<and> (ests \<noteq> [] \<and> smoothedConfidences st ! 0 * 0.9 ^ length ests < 0.05
            \<longrightarrow> smoothedPitches (hops cfg st ests) ! 0 = 0)"
  using assms(1)
proof (induction ests rule: rev_induct)
  case Nil
  show ?case using assms by (simp add: hops_def)
next
  case (snoc e ests)
  let ?s = "hops cfg st ests"
  have step: "hops cfg st (ests @ [e]) = process_smoothing cfg ?s e"
    by (simp add: hops_def)
  from snoc have ih: "smoothedConfidences ?s ! 0 = smoothedConfidences st ! 0 * 0.9 ^ length ests"
    and ne: "smoothedPitches ?s \<noteq> []" "smoothedConfidences ?s \<noteq> []"
    and rej: "rejected cfg e"
    by auto
  note d = decay_step [OF rej ne]
  show ?case
    unfolding step using d ih by (simp add: mult.assoc)
qed

lemma decay_reaches_threshold:
  fixes c :: real
  shows "\<exists>N\<ge>1. \<forall>n\<ge>N. c * 0.9 ^ n < 0.05"
proof (cases "c \<le> 0")
  case True
  have "c * 0.9 ^ n < 0.05" for n :: nat
  proof -
    have "c * 0.9 ^ n \<le> 0" using True by (simp add: mult_le_0_iff)
    then show ?thesis by simp
  qed
  then show ?thesis by (intro exI [of _ 1]) simp
next
  case False
  then have c: "0 < c" by simp
  then have "0 < 0.05 / c" by simp
  then obtain k :: nat where k: "(0.9::real) ^ k < 0.05 / c"
    using real_arch_pow_inv [of "0.05 / c" "0.9"] by auto
  have "c * 0.9 ^ n < 0.05" if "max k 1 \<le> n" for n
  proof -
    have "(0.9::real) ^ n \<le> 0.9 ^ k"
      using that by (intro power_decreasing) auto
    then have "(0.9::real) ^ n < 0.05 / c" using k by (rule le_less_trans)
    then show ?thesis using c by (simp add: pos_less_divide_eq mult.commute)
  qed
  then show ?thesis by (intro exI [of _ "max k 1"]) simp
qed

text \<open>
  C7. On a hop whose estimate is rejected (frequency \<open>0\<close>, or a confidence that does
  not exceed half the configured threshold), the smoothed confidence of voice \<open>0\<close> is
  multiplied by \<open>0.9\<close>, and when the result is below \<open>0.05\<close> the smoothed frequency
  is \<open>0\<close>. Hence there is a number \<open>N\<close> of hops such that after any unbroken run of
  at least \<open>N\<close> rejected hops the smoothed frequency is \<open>0\<close>: the voice reaches the
  silent state and stays there while the run lasts.
\<close>

theorem rejected_hops_decay_to_silent:
  assumes "smoothedPitches st \<noteq> []" and "smoothedConfidences st \<noteq> []"
  shows "(rejected cfg est \<longrightarrow>
            smoothedConfidences (process_smoothing cfg st est) ! 0
              = smoothedConfidences st ! 0 * 0.9
          \<and> (smoothedConfidences (process_smoothing cfg st est) ! 0 < 0.05
               \<longrightarrow> smoothedPitches (process_smoothing cfg st est) ! 0 = 0))
       \<and> (\<exists>N. \<forall>ests. N \<le> length ests \<and> (\<forall>e \<in> set ests. rejected cfg e)
               \<longrightarrow> smoothedPitches (hops cfg st ests) ! 0 = 0)"
proof (intro conjI impI)
  assume r: "rejected cfg est"
  show "smoothedConfidences (process_smoothing cfg st est) ! 0
          = smoothedConfidences st ! 0 * 0.9"
    using decay_step(1) [OF r assms] .
  assume "smoothedConfidences (process_smoothing cfg st est) ! 0 < 0.05"
  then show "smoothedPitches (process_smoothing cfg st est) ! 0 = 0"
    using decay_step(1,2) [OF r assms] by simp
next
  obtain N where N: "1 \<le> N" "\<forall>n\<ge>N. smoothedConfidences st ! 0 * 0.9 ^ n < 0.05"
    using decay_reaches_threshold [of "smoothedConfidences st ! 0"] by auto
  have "smoothedPitches (hops cfg st ests) ! 0 = 0"
    if "N \<le> length ests" "\<forall>e \<in> set ests. rejected cfg e" for ests
  proof -
    have "ests \<noteq> []" using that(1) N(1) by auto
    moreover have "smoothedConfidences st ! 0 * 0.9 ^ length ests < 0.05"
      using N(2) that(1) by simp
    ultimately show ?thesis
      using decay_run [OF that(2) assms] by simp
  qed
  then show "\<exists>N. \<forall>ests. N \<le> length ests \<and> (\<forall>e \<in> set ests. rejected cfg e)
               \<longrightarrow> smoothedPitches (hops cfg st ests) ! 0 = 0"
    by blast
qed

theorem rejected_hops_decay_to_silent_witness:
  "smoothedConfidences
     (process_smoothing defaultConfig
        (Processor_new\<lparr>smoothedPitches := [440, 0, 0], smoothedConfidences := [0.05, 0, 0]\<rparr>)
        noDetection) ! 0 = 0.05 * 0.9
   \<and> smoothedPitches
     (process_smoothing defaultConfig
        (Processor_new\<lparr>smoothedPitches := [440, 0, 0], smoothedConfidences := [0.05, 0, 0]\<rparr>)
        noDetection) ! 0 = 0
   \<and> (\<exists>N. smoothedPitches
          (hops defaultConfig
             (Processor_new\<lparr>smoothedPitches := [440, 0, 0],
                              smoothedConfidences := [0.9, 0, 0]\<rparr>)
             (replicate N noDetection)) ! 0 = 0)"
proof -
  let ?st = "Processor_new\<lparr>smoothedPitches := [440, 0, 0], smoothedConfidences := [0.05, 0, 0]\<rparr>"
  let ?st2 = "Processor_new\<lparr>smoothedPitches := [440, 0, 0], smoothedConfidences := [0.9, 0, 0]\<rparr>"
  have ne: "smoothedPitches ?st \<noteq> []" "smoothedConfidences ?st \<noteq> []"
    and ne2: "smoothedPitches ?st2 \<noteq> []" "smoothedConfidences ?st2 \<noteq> []"
    and c: "smoothedConfidences ?st ! 0 = 0.05"
    by simp_all
  have r: "rejected defaultConfig noDetection"
    by (simp add: rejected_def noDetection_def)
  note t = rejected_hops_decay_to_silent [OF ne, of defaultConfig noDetection]
  from t r c
  have 1: "smoothedConfidences (process_smoothing defaultConfig ?st noDetection) ! 0 = 0.05 * 0.9"
    by simp
  then have "smoothedConfidences (process_smoothing defaultConfig ?st noDetection) ! 0 < 0.05"
    by simp
  with t r
  have 2: "smoothedPitches (process_smoothing defaultConfig ?st noDetection) ! 0 = 0"
    by blast
  from rejected_hops_decay_to_silent [OF ne2, of defaultConfig noDetection]
  obtain N where N: "\<forall>ests. N \<le> length ests \<and> (\<forall>e \<in> set ests. rejected defaultConfig e)
               \<longrightarrow> smoothedPitches (hops defaultConfig ?st2 ests) ! 0 = 0"
    by blast
  have "smoothedPitches (hops defaultConfig ?st2 (replicate N noDetection)) ! 0 = 0"
    using N r by simp
  then show ?thesis using 1 2 by blast
qed

text \<open>The FFT variant decays in the same way: on a rejected estimate the two blocks agree.\<close>

lemma process_smoothing_fft_rejected:
  "rejected cfg est \<Longrightarrow> process_smoothing_fft cfg st est = process_smoothing cfg st est"
  using rejected_not_accepted [of cfg est]
  by (simp add: process_smoothing_fft_def process_smoothing_def)

lemma hops_fft_rejected:
  "\<forall>e \<in> set ests. rejected cfg e \<Longrightarrow> hops_fft cfg st ests = hops cfg st ests"
  unfolding hops_fft_def hops_def
  by (induction ests arbitrary: st) (simp_all add: process_smoothing_fft_rejected)

section \<open>Quantize mode\<close>

text \<open>
  The quantize branch acts on one voice of the processor as \<open>voice_step\<close> acts on the
  pair of its committed note and its counter.
\<close>

lemma Math_round_int: "Math_round (real_of_int m) = m"
  by (simp add: Math_round_def)

lemma midiToFrequency_pos: "0 < a4 \<Longrightarrow> 0 < midiToFrequency m a4"
  by (simp add: midiToFrequency_def Math_pow2_def)

lemma quantize_update_voice:
  assumes "wf_voice st index"
  shows "voice (quantize_update st t index) index = voice_step (voice st index) t"
    and "wf_voice (quantize_update st t index) index"
  using assms
  by (auto simp: quantize_update_def voice_def voice_step_def wf_voice_def Let_def)

lemma getSynthFrequency_quantize:
  assumes "referenceMode cfg = Quantize" and "0 < frequency pitch"
  shows "getSynthFrequency cfg st pitch index =
           (a4Tuning cfg * Math_pow2
              ((real_of_int (lastQuantizedMidi
                  (quantize_update st (Math_round (midiNote pitch)) index) ! index) - 69) / 12),
            quantize_update st (Math_round (midiNote pitch)) index)"
  using assms by (simp add: getSynthFrequency_def Let_def)

lemma hops_voice:
  assumes "referenceMode cfg = Quantize" and "\<forall>p \<in> set ps. 0 < frequency p"
    and "wf_voice st index"
  shows "map (\<lambda>s. voice s index) (getSynthFrequency_hops cfg st index ps)
           = voice_run (voice st index) (proposals ps)"
  using assms(2,3)
proof (induction ps arbitrary: st)
  case Nil
  show ?case by (simp add: proposals_def)
next
  case (Cons p ps)
  let ?st' = "quantize_update st (Math_round (midiNote p)) index"
  have g: "snd (getSynthFrequency cfg st p index) = ?st'"
    using Cons.prems assms(1) by (simp add: getSynthFrequency_quantize)
  have "map (\<lambda>s. voice s index) (getSynthFrequency_hops cfg ?st' index ps)
          = voice_run (voice ?st' index) (proposals ps)"
    using Cons.prems quantize_update_voice(2) by (intro Cons.IH) auto
  then show ?case
    using Cons.prems g quantize_update_voice(1) [of st index]
    by (simp add: proposals_def Let_def)
qed

lemma committed_notes_voice:
  assumes "referenceMode cfg = Quantize" and "\<forall>p \<in> set ps. 0 < frequency p"
    and "wf_voice st index"
  shows "committed_notes cfg st index ps
           = map fst (voice_run (voice st index) (proposals ps))"
proof -
  have "committed_notes cfg st index ps
          = map fst (map (\<lambda>s. voice s index) (getSynthFrequency_hops cfg st index ps))"
    by (simp add: committed_notes_def voice_def comp_def)
  then show ?thesis by (simp only: hops_voice [OF assms])
qed

lemma voice_run_length [simp]: "length (voice_run s ts) = length ts"
  by (induction ts arbitrary: s) simp_all

text \<open>
  A change of the committed note at hop \<open>i\<close>, in a run that starts with the counter at
  \<open>h\<close>: the last three proposals, or all of them when the run is shorter and \<open>h\<close>
  makes up for it, differ from the note committed before.
\<close>

lemma voice_commit:
  assumes "0 \<le> snd s" and "snd s \<le> 2" and "i < length ts"
    and "fst (voice_run s ts ! i) \<noteq> fst ((s # voice_run s ts) ! i)"
  shows "2 \<le> int i + snd s
       \<and> fst (voice_run s ts ! i) = ts ! i
       \<and> (\<forall>j. i - 2 \<le> j \<and> j \<le> i \<longrightarrow>
             ts ! j \<noteq> fst ((s # voice_run s ts) ! i)
           \<and> fst ((s # voice_run s ts) ! j) = fst ((s # voice_run s ts) ! i))"
  using assms
proof (induction ts arbitrary: s i)
  case Nil
  then show ?case by simp
next
  case (Cons t ts)
  let ?s' = "voice_step s t"
  have s': "0 \<le> snd ?s'" "snd ?s' \<le> 2"
    using Cons.prems(1,2) by (auto simp: voice_step_def)
  show ?case
  proof (cases i)
    case 0
    with Cons.prems have ch0: "fst (voice_step s t) \<noteq> fst s" by simp
    then have "t \<noteq> fst s" "snd s = 2" "fst (voice_step s t) = t"
      using Cons.prems(2) by (auto simp: voice_step_def split: if_splits)
    then show ?thesis using 0 by simp
  next
    case (Suc i')
    with Cons.prems have i': "i' < length ts"
      and ch: "fst (voice_run ?s' ts ! i') \<noteq> fst ((?s' # voice_run ?s' ts) ! i')"
      by simp_all
    note ih = Cons.IH [OF s' i' ch]
    from ih have a: "2 \<le> int i' + snd ?s'"
      and b: "fst (voice_run ?s' ts ! i') = ts ! i'"
      and c: "\<And>j. i' - 2 \<le> j \<Longrightarrow> j \<le> i' \<Longrightarrow>
               ts ! j \<noteq> fst ((?s' # voice_run ?s' ts) ! i')
             \<and> fst ((?s' # voice_run ?s' ts) ! j) = fst ((?s' # voice_run ?s' ts) ! i')"
      by blast+
    have "snd ?s' \<le> snd s + 1"
      using Cons.prems(1) by (simp add: voice_step_def)
    then have 1: "2 \<le> int i + snd s"
      using a Suc by simp
    have 2: "fst (voice_run s (t # ts) ! i) = (t # ts) ! i"
      using b Suc by simp
    have 3: "(t # ts) ! j \<noteq> fst ((s # voice_run s (t # ts)) ! i)
           \<and> fst ((s # voice_run s (t # ts)) ! j) = fst ((s # voice_run s (t # ts)) ! i)"
      if j: "i - 2 \<le> j" "j \<le> i" for j
    proof (cases j)
      case (Suc j')
      with j \<open>i = Suc i'\<close> have "i' - 2 \<le> j'" "j' \<le> i'" by auto
      from c [OF this] show ?thesis using Suc \<open>i = Suc i'\<close> by simp
    next
      case 0
      with j \<open>i = Suc i'\<close> have small: "i' \<le> 1" by auto
      then have h': "1 \<le> snd ?s'" using a by auto
      then have dis: "t \<noteq> fst s" and keep: "fst ?s' = fst s"
        by (auto simp: voice_step_def split: if_splits)
      have "0 \<le> i'" "i' - 2 \<le> 0" using small by auto
      from c [of 0] small have "fst ?s' = fst ((?s' # voice_run ?s' ts) ! i')"
        by auto
      then show ?thesis using 0 \<open>i = Suc i'\<close> dis keep by simp
    qed
    show ?thesis using 1 2 3 by blast
  qed
qed

lemma voice_run_alternating:
  "map fst (voice_run (60, h) [60, 61, 60, 61, 60]) = [60, 60, 60, 60, 60]"
  by (simp add: voice_step_def)

lemma voice_run_three:
  "map fst (voice_run (60, h) [60, 61, 61, 61, 60]) = [60, 60, 60, 61, 61]"
  by (simp add: voice_step_def)

lemma voice_run_glide:
  "map fst (voice_run (60, 0) [61, 62, 63]) = [60, 60, 63]"
  by (simp add: voice_step_def)

lemma notePitch_frequency: "0 < frequency (notePitch m)"
  by (simp add: notePitch_def midiToFrequency_pos)

lemma notePitches_positive: "\<forall>p \<in> set (map notePitch ms). 0 < frequency p"
  by (simp add: notePitch_frequency)

lemma proposals_notePitch:
  "proposals (map notePitch (map real_of_int ns)) = ns"
  by (induction ns) (simp_all add: proposals_def notePitch_def Math_round_int)

lemma committed60_voice: "wf_voice committed60 0" "voice committed60 0 = (60, 0)"
  by (simp_all add: committed60_def Processor_new_def wf_voice_def voice_def)

lemma defaultConfig_mode: "referenceMode defaultConfig = Quantize"
  by (simp add: defaultConfig_def)

text \<open>
  C1 as stated fails. The counter counts the hops whose proposal differs from the
  committed note, whatever they propose. From the committed note \<open>60\<close> the proposals
  \<open>61, 62, 63\<close> commit the note \<open>63\<close> at the third hop, the only hop that proposed it.
\<close>

theorem quantize_single_proposal_commit:
  "committed_notes defaultConfig committed60 0 (map notePitch [61, 62, 63]) = [60, 60, 63]
   \<and> proposals (map notePitch [61, 62, 63]) = [61, 62, 63]"
proof -
  have p: "proposals (map notePitch [61, 62, 63]) = [61, 62, 63]"
    using proposals_notePitch [of "[61, 62, 63]"] by simp
  have "committed_notes defaultConfig committed60 0 (map notePitch [61, 62, 63])
          = map fst (voice_run (voice committed60 0) (proposals (map notePitch [61, 62, 63])))"
    by (rule committed_notes_voice [OF defaultConfig_mode notePitches_positive
          committed60_voice(1)])
  then show ?thesis
    by (simp only: p committed60_voice voice_run_glide)
qed

text \<open>
  C1, amended. In quantize mode, for a voice inside the arrays and detected pitches of
  positive frequency:
  \<^item> starting with the counter at \<open>0\<close>, when the committed note changes at hop \<open>i\<close>
    then \<open>i \<ge> 2\<close>, the proposals of the hops \<open>i - 2\<close>, \<open>i - 1\<close> and \<open>i\<close> all differ from
    the note that was committed before these three hops, and the new committed note is
    the proposal of hop \<open>i\<close>;
  \<^item> from the committed note \<open>60\<close> the proposals \<open>60, 61, 60, 61, 60\<close> never change the
    committed note, and the proposals \<open>60, 61, 61, 61, 60\<close> change it to \<open>61\<close> at the
    third \<open>61\<close>;
  \<^item> the returned frequency is \<open>a4Tuning * 2 ^ ((committed - 69) / 12)\<close> for the note
    committed after the call.
\<close>

theorem quantize_hysteresis:
  assumes "referenceMode cfg = Quantize"
    and "index < length (lastQuantizedMidi st)" and "index < length (noteHysteresis st)"
    and "\<forall>p \<in> set ps. 0 < frequency p"
  shows "(noteHysteresis st ! index = 0 \<longrightarrow>
           (\<forall>i < length ps.
              committed_notes cfg st index ps ! i
                \<noteq> (lastQuantizedMidi st ! index # committed_notes cfg st index ps) ! i \<longrightarrow>
              2 \<le> i
            \<and> committed_notes cfg st index ps ! i = proposals ps ! i
            \<and> (\<forall>j. i - 2 \<le> j \<and> j \<le> i \<longrightarrow>
                  proposals ps ! j
                    \<noteq> (lastQuantizedMidi st ! index # committed_notes cfg st index ps) ! i
                \<and> (lastQuantizedMidi st ! index # committed_notes cfg st index ps) ! j
                    = (lastQuantizedMidi st ! index # committed_notes cfg st index ps) ! i)))
       \<and> (lastQuantizedMidi st ! index = 60 \<and> proposals ps = [60, 61, 60, 61, 60] \<longrightarrow>
            committed_notes cfg st index ps = [60, 60, 60, 60, 60])
       \<and> (lastQuantizedMidi st ! index = 60 \<and> proposals ps = [60, 61, 61, 61, 60] \<longrightarrow>
            committed_notes cfg st index ps = [60, 60, 60, 61, 61])
       \<and> (\<forall>p. 0 < frequency p \<longrightarrow>
            fst (getSynthFrequency cfg st p index)
              = a4Tuning cfg * Math_pow2
                  ((real_of_int (lastQuantizedMidi (snd (getSynthFrequency cfg st p index)) ! index)
                    - 69) / 12))"
proof -
  have wf: "wf_voice st index" using assms(2,3) by (simp add: wf_voice_def)
  note cn = committed_notes_voice [OF assms(1,4) wf]
  let ?s = "voice st index"
  let ?ts = "proposals ps"
  have len: "length ?ts = length ps" by (simp add: proposals_def)
  have nth_fst: "(lastQuantizedMidi st ! index # committed_notes cfg st index ps) ! j
                   = fst ((?s # voice_run ?s ?ts) ! j)" if "j \<le> length ps" for j
    using that len by (cases j) (simp_all add: cn voice_def)
  have A: "2 \<le> i
         \<and> committed_notes cfg st index ps ! i = proposals ps ! i
         \<and> (\<forall>j. i - 2 \<le> j \<and> j \<le> i \<longrightarrow>
               proposals ps ! j
                 \<noteq> (lastQuantizedMidi st ! index # committed_notes cfg st index ps) ! i
             \<and> (lastQuantizedMidi st ! index # committed_notes cfg st index ps) ! j
                 = (lastQuantizedMidi st ! index # committed_notes cfg st index ps) ! i)"
    if h: "noteHysteresis st ! index = 0" and i: "i < length ps"
      and ch: "committed_notes cfg st index ps ! i
                 \<noteq> (lastQuantizedMidi st ! index # committed_notes cfg st index ps) ! i"
    for i
  proof -
    have s: "snd ?s = 0" using h by (simp add: voice_def)
    have i': "i < length ?ts" using i len by simp
    have cni: "committed_notes cfg st index ps ! i = fst (voice_run ?s ?ts ! i)"
      using i' by (simp add: cn)
    have ch': "fst (voice_run ?s ?ts ! i) \<noteq> fst ((?s # voice_run ?s ?ts) ! i)"
      using ch i by (simp add: cni nth_fst)
    have vc: "2 \<le> int i + snd ?s
       \<and> fst (voice_run ?s ?ts ! i) = ?ts ! i
       \<and> (\<forall>j. i - 2 \<le> j \<and> j \<le> i \<longrightarrow>
             ?ts ! j \<noteq> fst ((?s # voice_run ?s ?ts) ! i)
           \<and> fst ((?s # voice_run ?s ?ts) ! j) = fst ((?s # voice_run ?s ?ts) ! i))"
      by (rule voice_commit [OF _ _ i' ch']) (simp_all add: s)
    have g1: "2 \<le> i" using vc s by simp
    have g2: "committed_notes cfg st index ps ! i = proposals ps ! i"
      using vc by (simp only: cni)
    have g3: "proposals ps ! j
                \<noteq> (lastQuantizedMidi st ! index # committed_notes cfg st index ps) ! i
            \<and> (lastQuantizedMidi st ! index # committed_notes cfg st index ps) ! j
                = (lastQuantizedMidi st ! index # committed_notes cfg st index ps) ! i"
      if j: "i - 2 \<le> j" "j \<le> i" for j
    proof -
      have le: "j \<le> length ps" "i \<le> length ps" using j i by simp_all
      from vc j have "?ts ! j \<noteq> fst ((?s # voice_run ?s ?ts) ! i)
           \<and> fst ((?s # voice_run ?s ?ts) ! j) = fst ((?s # voice_run ?s ?ts) ! i)"
        by blast
      then show ?thesis unfolding nth_fst [OF le(1)] nth_fst [OF le(2)] .
    qed
    show ?thesis using g1 g2 g3 by blast
  qed
  have B: "committed_notes cfg st index ps = [60, 60, 60, 60, 60]"
    if "lastQuantizedMidi st ! index = 60" "proposals ps = [60, 61, 60, 61, 60]"
  proof -
    have "?s = (60, noteHysteresis st ! index)" using that(1) by (simp add: voice_def)
    then show ?thesis by (simp only: cn that(2) voice_run_alternating)
  qed
  have C: "committed_notes cfg st index ps = [60, 60, 60, 61, 61]"
    if "lastQuantizedMidi st ! index = 60" "proposals ps = [60, 61, 61, 61, 60]"
  proof -
    have "?s = (60, noteHysteresis st ! index)" using that(1) by (simp add: voice_def)
    then show ?thesis by (simp only: cn that(2) voice_run_three)
  qed
  have D: "fst (getSynthFrequency cfg st p index)
              = a4Tuning cfg * Math_pow2
                  ((real_of_int (lastQuantizedMidi (snd (getSynthFrequency cfg st p index)) ! index)
                    - 69) / 12)" if "0 < frequency p" for p
    by (simp add: getSynthFrequency_quantize [OF assms(1) that])
  show ?thesis using A B C D by blast
qed

theorem quantize_hysteresis_witness:
  "committed_notes defaultConfig committed60 0 (map notePitch [60, 61, 60, 61, 60])
     = [60, 60, 60, 60, 60]
   \<and> committed_notes defaultConfig committed60 0 (map notePitch [60, 61, 61, 61, 60])
     = [60, 60, 60, 61, 61]
   \<and> fst (getSynthFrequency defaultConfig committed60 (notePitch 61) 0)
     = 440 * Math_pow2
         ((real_of_int (lastQuantizedMidi
             (snd (getSynthFrequency defaultConfig committed60 (notePitch 61) 0)) ! 0) - 69) / 12)"
proof -
  have l: "0 < length (lastQuantizedMidi committed60)" "0 < length (noteHysteresis committed60)"
    by (simp_all add: committed60_def Processor_new_def)
  have c: "lastQuantizedMidi committed60 ! 0 = 60"
    by (simp add: committed60_def Processor_new_def)
  have a4: "a4Tuning defaultConfig = 440" by (simp add: defaultConfig_def)
  have p1: "proposals (map notePitch [60, 61, 60, 61, 60]) = [60, 61, 60, 61, 60]"
    using proposals_notePitch [of "[60, 61, 60, 61, 60]"] by simp
  have p2: "proposals (map notePitch [60, 61, 61, 61, 60]) = [60, 61, 61, 61, 60]"
    using proposals_notePitch [of "[60, 61, 61, 61, 60]"] by simp
  note t1 = quantize_hysteresis [OF defaultConfig_mode l notePitches_positive,
      of "[60, 61, 60, 61, 60]"]
  note t2 = quantize_hysteresis [OF defaultConfig_mode l notePitches_positive,
      of "[60, 61, 61, 61, 60]"]
  from t1 c p1
  have w1: "committed_notes defaultConfig committed60 0 (map notePitch [60, 61, 60, 61, 60])
              = [60, 60, 60, 60, 60]"
    by blast
  from t2 c p2
  have w2: "committed_notes defaultConfig committed60 0 (map notePitch [60, 61, 61, 61, 60])
              = [60, 60, 60, 61, 61]"
    by blast
  from t1 notePitch_frequency [of 61]
  have w3: "fst (getSynthFrequency defaultConfig committed60 (notePitch 61) 0)
     = a4Tuning defaultConfig * Math_pow2
         ((real_of_int (lastQuantizedMidi
             (snd (getSynthFrequency defaultConfig committed60 (notePitch 61) 0)) ! 0) - 69) / 12)"
    by blast
  show ?thesis using w1 w2 w3 by (simp only: a4 simp_thms)
qed

section \<open>Scale mode\<close>

text \<open>
  The loop over the intervals, started with the minimum \<open>m\<close> and the interval \<open>cur\<close>:
  either no interval is closer than \<open>m\<close> and \<open>cur\<close> is returned, or the result is an
  interval closer than \<open>m\<close>, strictly closer than every interval before it and at least
  as close as every interval after it.
\<close>

lemma nearestIntervalLoop_invariant:
  "(nearestIntervalLoop nc xs (Some m) cur = cur \<and> (\<forall>x \<in> set xs. m \<le> scaleDistance nc x))
   \<or> (\<exists>pre post. xs = pre @ nearestIntervalLoop nc xs (Some m) cur # post
        \<and> scaleDistance nc (nearestIntervalLoop nc xs (Some m) cur) < m
        \<and> (\<forall>x \<in> set pre. scaleDistance nc (nearestIntervalLoop nc xs (Some m) cur)
                              < scaleDistance nc x)
        \<and> (\<forall>x \<in> set post. scaleDistance nc (nearestIntervalLoop nc xs (Some m) cur)
                              \<le> scaleDistance nc x))"
proof (induction xs arbitrary: m cur)
  case Nil
  show ?case by simp
next
  case (Cons x xs)
  show ?case
  proof (cases "scaleDistance nc x < m")
    case True
    let ?r = "nearestIntervalLoop nc xs (Some (scaleDistance nc x)) x"
    have r: "nearestIntervalLoop nc (x # xs) (Some m) cur = ?r"
      using True by simp
    from Cons.IH [of "scaleDistance nc x" x]
    consider (keep) "?r = x" "\<forall>y \<in> set xs. scaleDistance nc x \<le> scaleDistance nc y"
      | (later) pre post where "xs = pre @ ?r # post"
          "scaleDistance nc ?r < scaleDistance nc x"
          "\<forall>y \<in> set pre. scaleDistance nc ?r < scaleDistance nc y"
          "\<forall>y \<in> set post. scaleDistance nc ?r \<le> scaleDistance nc y"
      by blast
    then show ?thesis
    proof cases
      case keep
      then have "x # xs = [] @ ?r # xs \<and> scaleDistance nc ?r < m
          \<and> (\<forall>y \<in> set []. scaleDistance nc ?r < scaleDistance nc y)
          \<and> (\<forall>y \<in> set xs. scaleDistance nc ?r \<le> scaleDistance nc y)"
        using True by simp
      then show ?thesis unfolding r by blast
    next
      case later
      then have "x # xs = (x # pre) @ ?r # post \<and> scaleDistance nc ?r < m
          \<and> (\<forall>y \<in> set (x # pre). scaleDistance nc ?r < scaleDistance nc y)
          \<and> (\<forall>y \<in> set post. scaleDistance nc ?r \<le> scaleDistance nc y)"
        using True by simp
      then show ?thesis unfolding r by blast
    qed
  next
    case False
    let ?r = "nearestIntervalLoop nc xs (Some m) cur"
    have r: "nearestIntervalLoop nc (x # xs) (Some m) cur = ?r"
      using False by simp
    from Cons.IH [of m cur]
    consider (keep) "?r = cur" "\<forall>y \<in> set xs. m \<le> scaleDistance nc y"
      | (later) pre post where "xs = pre @ ?r # post"
          "scaleDistance nc ?r < m"
          "\<forall>y \<in> set pre. scaleDistance nc ?r < scaleDistance nc y"
          "\<forall>y \<in> set post. scaleDistance nc ?r \<le> scaleDistance nc y"
      by blast
    then show ?thesis
    proof cases
      case keep
      then show ?thesis unfolding r using False by simp
    next
      case later
      then have "x # xs = (x # pre) @ ?r # post \<and> scaleDistance nc ?r < m
          \<and> (\<forall>y \<in> set (x # pre). scaleDistance nc ?r < scaleDistance nc y)
          \<and> (\<forall>y \<in> set post. scaleDistance nc ?r \<le> scaleDistance nc y)"
        using False by simp
      then show ?thesis unfolding r by blast
    qed
  qed
qed

lemma scaleDistance_bound:
  "0 \<le> nc \<Longrightarrow> nc < 12 \<Longrightarrow> 0 \<le> x \<Longrightarrow> x < 12 \<Longrightarrow> scaleDistance nc x < 12"
  by (simp add: scaleDistance_def)

text \<open>
  The loop returns the first interval of the configured order at minimum distance.
\<close>

lemma nearestIntervalLoop_first_minimum:
  assumes "x \<in> set xs" and "scaleDistance nc x < 12"
  shows "\<exists>pre post. xs = pre @ nearestIntervalLoop nc xs (Some 12) 0 # post
        \<and> (\<forall>y \<in> set pre. scaleDistance nc (nearestIntervalLoop nc xs (Some 12) 0)
                              < scaleDistance nc y)
        \<and> (\<forall>y \<in> set post. scaleDistance nc (nearestIntervalLoop nc xs (Some 12) 0)
                              \<le> scaleDistance nc y)"
  using nearestIntervalLoop_invariant [of nc xs 12 0] assms by auto

text \<open>
  A note whose class is in the scale is kept. In C major the note \<open>61\<close> (class \<open>1\<close>) is at
  distance \<open>1\<close> from the classes \<open>0\<close> and \<open>2\<close>; the loop keeps \<open>0\<close> and the target is \<open>60\<close>.
\<close>

lemma scale_in_scale:
  "scaleNoteClass midi (root sc) \<in> set (intervals sc) \<Longrightarrow> scale_targetMidi midi sc = midi"
  by (simp add: scale_targetMidi_def)

lemma scale_C_sharp_snaps_to_C:
  "scaleNoteClass 61 0 = 1"
  "nearestIntervalLoop 1 (intervals (majorScale 0)) (Some 12) 0 = 0"
  "scale_targetMidi 61 (majorScale 0) = 60"
  by (simp_all add: scale_targetMidi_def majorScale_def scaleNoteClass_def js_rem_def
        scaleDistance_def Math_floor_def)

lemma scale_targetMidi_G_major: "scale_targetMidi 61 (majorScale 7) = 72"
  by (simp add: scale_targetMidi_def majorScale_def scaleNoteClass_def js_rem_def
        scaleDistance_def Math_floor_def)

lemma snapToScale_targetMidi_G_major:
  "snapToScale_targetMidi 61 7 [0, 2, 4, 5, 7, 9, 11] = 72"
  by (simp add: snapToScale_targetMidi_def scaleNoteClass_def js_rem_def
        scaleDistance_def Math_floor_def)

text \<open>
  C2. The claim says that a note outside the scale is snapped to the nearest interval
  and rebuilt in the same octave. With the root \<open>7\<close> (G major) the note \<open>61\<close> has class
  \<open>6\<close>, the nearest interval is \<open>5\<close>, and the target
  \<open>floor (61 / 12) * 12 + 7 + 5 = 72\<close> is in the next octave, eleven semitones above the
  note: \<open>root + interval\<close> is not reduced modulo \<open>12\<close>. Both \<open>getSynthFrequency\<close> and
  \<open>snapToScale\<close> return the frequency of the note \<open>72\<close>.
\<close>

theorem scale_snap_leaves_octave:
  "scale_targetMidi 61 (majorScale 7) = 72
   \<and> Math_floor (real_of_int 72 / 12) \<noteq> Math_floor (real_of_int 61 / 12)
   \<and> getSynthFrequency (defaultConfig\<lparr>referenceMode := Scale, scale := Some (majorScale 7)\<rparr>)
        Processor_new (notePitch 61) 0
      = (midiToFrequency 72 440, Processor_new)
   \<and> snapToScale (midiToFrequency 61 440) 7 [0, 2, 4, 5, 7, 9, 11] 440 = midiToFrequency 72 440"
proof -
  have r: "Math_round 61 = 61" using Math_round_int [of 61] by simp
  have g: "getSynthFrequency
             (defaultConfig\<lparr>referenceMode := Scale, scale := Some (majorScale 7)\<rparr>)
             Processor_new (notePitch 61) 0
           = (midiToFrequency 72 440, Processor_new)"
  proof -
    have m: "midiNote (notePitch 61) = 61" by (simp add: notePitch_def)
    show ?thesis
      using notePitch_frequency [of 61]
      by (simp add: getSynthFrequency_def defaultConfig_def m r scale_targetMidi_G_major
            midiToFrequency_def)
  qed
  have "frequencyToMidi (midiToFrequency 61 440) 440 = 61"
    by (rule midi_round_trip_exact) simp
  then have s: "snapToScale (midiToFrequency 61 440) 7 [0, 2, 4, 5, 7, 9, 11] 440
                  = midiToFrequency 72 440"
    by (simp add: snapToScale_def r snapToScale_targetMidi_G_major)
  show ?thesis
    using g s by (simp add: scale_targetMidi_G_major Math_floor_def)
qed

end
